theory Spec2Isabelle
  imports Main
begin

section \<open>Exceptions\<close>

text \<open>
  A computation that can raise returns \<open>Inl\<close> of the exception or \<open>Inr\<close> of its value.
  \<open>ebind\<close> runs a second computation on the value of a first; \<open>emap\<close> is a list
  comprehension (or \<^verbatim>\<open>Series.apply\<close>) whose body can raise: left to right, stopping at the
  first exception.
\<close>

datatype py_error =
    AttributeError | IndexError | InvalidIndexError | KeyError | TypeError | ValueError
  | OtherError

definition ebind :: "py_error + 'a \<Rightarrow> ('a \<Rightarrow> py_error + 'b) \<Rightarrow> py_error + 'b" where
  "ebind m f = (case m of Inl e \<Rightarrow> Inl e | Inr v \<Rightarrow> f v)"

fun emap :: "('a \<Rightarrow> py_error + 'b) \<Rightarrow> 'a list \<Rightarrow> py_error + 'b list" where
  "emap f [] = Inr []"
| "emap f (x # xs) =
     (case f x of
        Inl e \<Rightarrow> Inl e
      | Inr y \<Rightarrow> (case emap f xs of Inl e \<Rightarrow> Inl e | Inr ys \<Rightarrow> Inr (y # ys)))"

text \<open>\<^verbatim>\<open>xs[i]\<close> for \<open>i \<ge> 0\<close>.\<close>

definition item :: "'a list \<Rightarrow> nat \<Rightarrow> py_error + 'a" where
  "item xs i = (if i < length xs then Inr (xs ! i) else Inl IndexError)"

section \<open>Python strings\<close>

text \<open>
  A Python \<^verbatim>\<open>str\<close> is a sequence of code points; a code point is a natural number.
  \<open>str\<close> turns an ASCII literal into such a sequence.
\<close>

type_synonym pystr = "nat list"

definition str :: "string \<Rightarrow> pystr" where
  "str s = map of_char s"

text \<open>
  Which code points \<^verbatim>\<open>\d\<close> matches, and the decimal value \<^verbatim>\<open>int\<close> gives each, is the
  table of Unicode decimal digits of the Python runtime. It is a parameter \<open>dv\<close> of the
  model: \<open>dv c = Some d\<close> when \<open>c\<close> is a decimal digit of value \<open>d\<close>. \<open>ascii_dv\<close> is
  its restriction to \<^verbatim>\<open>0\<close>..\<^verbatim>\<open>9\<close>, used for concrete runs.
\<close>

type_synonym digit_table = "nat \<Rightarrow> nat option"

definition ascii_dv :: digit_table where
  "ascii_dv c = (if 48 \<le> c \<and> c \<le> 57 then Some (c - 48) else None)"

definition is_digit :: "digit_table \<Rightarrow> nat \<Rightarrow> bool" where
  "is_digit dv c = (dv c \<noteq> None)"

text \<open>\<^verbatim>\<open>text.split('\n')\<close>: the pieces between the separators, never an empty list.\<close>

fun split_on :: "nat \<Rightarrow> pystr \<Rightarrow> pystr list" where
  "split_on sep [] = [[]]"
| "split_on sep (c # cs) =
     (if c = sep then [] # split_on sep cs
      else (case split_on sep cs of
              [] \<Rightarrow> [[c]]
            | p # ps \<Rightarrow> (c # p) # ps))"

text \<open>\<^verbatim>\<open>sep.join(parts)\<close> for a one-character separator.\<close>

fun join_with :: "nat \<Rightarrow> pystr list \<Rightarrow> pystr" where
  "join_with sep [] = []"
| "join_with sep [p] = p"
| "join_with sep (p # q # ps) = p @ sep # join_with sep (q # ps)"

text \<open>
  The integer that a non-empty string of decimal digits denotes, most significant digit
  first; \<open>None\<close> on any other string.
\<close>

definition digits_value :: "digit_table \<Rightarrow> pystr \<Rightarrow> int option" where
  "digits_value dv s =
     (case those (map dv s) of
        None \<Rightarrow> None
      | Some ds \<Rightarrow> if ds = [] then None else Some (foldl (\<lambda>a d. 10 * a + int d) 0 ds))"

text \<open>
  \<^verbatim>\<open>sys.int_info.default_max_str_digits\<close> of Python 3.11, the version of the notebooks'
  kernel: the longest string of digits that \<^verbatim>\<open>int\<close> converts. The notebooks do not change
  the limit.
\<close>

definition int_max_str_digits :: nat where
  "int_max_str_digits = 4300"

text \<open>
  \<^verbatim>\<open>int(s)\<close> on a non-empty string of decimal digits: its value, or \<^verbatim>\<open>ValueError\<close> when
  the string has more digits than the limit (leading zeros count). \<open>None\<close> on any other
  string: the other spellings \<^verbatim>\<open>int\<close> accepts (sign, blanks, underscores) are outside the
  model.
\<close>

definition py_int :: "digit_table \<Rightarrow> pystr \<Rightarrow> (py_error + int) option" where
  "py_int dv s =
     (case digits_value dv s of
        None \<Rightarrow> None
      | Some v \<Rightarrow> Some (if int_max_str_digits < length s then Inl ValueError else Inr v))"

section \<open>Regular expressions of the \<^verbatim>\<open>re\<close> module\<close>

text \<open>
  The fragment of \<^verbatim>\<open>re\<close> the notebooks use: a literal character, \<^verbatim>\<open>\d\<close>, \<^verbatim>\<open>.\<close> (any
  character but a newline), a character set \<^verbatim>\<open>[..]\<close>, concatenation, alternation, the
  greedy repetition \<^verbatim>\<open>{lo,hi}\<close> (\<^verbatim>\<open>{lo,}\<close>, \<^verbatim>\<open>*\<close> and \<^verbatim>\<open>+\<close> have no upper bound) and
  a numbered capturing group. A non-capturing group is only bracketing.
\<close>

datatype regex =
    Lit nat
  | Digit
  | Dot
  | OneOf "nat list"
  | Seq regex regex
  | Alt regex regex
  | Rep regex nat "nat option"
  | Group nat regex

text \<open>
  The matcher is the backtracking one of \<^verbatim>\<open>re\<close>: from a state (the text still to read,
  and the groups captured so far) it returns every way to match, in the order the engine
  tries them. The first element is the match Python reports.
\<close>

type_synonym captures = "nat \<rightharpoonup> pystr"
type_synonym mstate = "pystr \<times> captures"

text \<open>
  Greedy repetition: one more round of the body is tried before stopping, and stopping
  is allowed once \<open>lo\<close> rounds are done. The first argument bounds the rounds left.
\<close>

primrec rep :: "nat \<Rightarrow> (mstate \<Rightarrow> mstate list) \<Rightarrow> nat \<Rightarrow> mstate \<Rightarrow> mstate list" where
  "rep 0 step lo st = (if lo = 0 then [st] else [])"
| "rep (Suc n) step lo st =
     concat (map (rep n step (lo - 1)) (step st)) @ (if lo = 0 then [st] else [])"

text \<open>
  An unbounded repetition is given \<open>lo + length text\<close> rounds: a round that reads nothing
  changes no result, so more rounds than that match nothing new.
\<close>

primrec mtch :: "digit_table \<Rightarrow> regex \<Rightarrow> mstate \<Rightarrow> mstate list" where
  "mtch dv (Lit c) st =
     (case fst st of [] \<Rightarrow> [] | x # xs \<Rightarrow> if x = c then [(xs, snd st)] else [])"
| "mtch dv Digit st =
     (case fst st of [] \<Rightarrow> [] | x # xs \<Rightarrow> if is_digit dv x then [(xs, snd st)] else [])"
| "mtch dv Dot st =
     (case fst st of [] \<Rightarrow> [] | x # xs \<Rightarrow> if x \<noteq> 10 then [(xs, snd st)] else [])"
| "mtch dv (OneOf cs) st =
     (case fst st of [] \<Rightarrow> [] | x # xs \<Rightarrow> if x \<in> set cs then [(xs, snd st)] else [])"
| "mtch dv (Seq a b) st = concat (map (mtch dv b) (mtch dv a st))"
| "mtch dv (Alt a b) st = mtch dv a st @ mtch dv b st"
| "mtch dv (Rep r lo hi) st =
     rep (case hi of None \<Rightarrow> lo + length (fst st) | Some h \<Rightarrow> h) (mtch dv r) lo st"
| "mtch dv (Group k r) st =
     map (\<lambda>(s', g). (s', g(k \<mapsto> take (length (fst st) - length s') (fst st))))
       (mtch dv r st)"

text \<open>
  \<^verbatim>\<open>re.search(pattern, s)\<close>: the first match at the leftmost position that has one;
  \<open>None\<close> as in Python. The result is the match's groups (\<^verbatim>\<open>m.group(k)\<close> is \<open>g k\<close>).
\<close>

fun re_search :: "digit_table \<Rightarrow> regex \<Rightarrow> pystr \<Rightarrow> captures option" where
  "re_search dv r [] = (case mtch dv r ([], Map.empty) of [] \<Rightarrow> None | m # _ \<Rightarrow> Some (snd m))"
| "re_search dv r (c # cs) =
     (case mtch dv r (c # cs, Map.empty) of
        [] \<Rightarrow> re_search dv r cs
      | m # _ \<Rightarrow> Some (snd m))"

text \<open>\<^verbatim>\<open>m.group(k)\<close> as \<^verbatim>\<open>findall\<close> reports it: the empty string for a group that took no part.\<close>

definition group_text :: "captures \<Rightarrow> nat \<Rightarrow> pystr" where
  "group_text g k = (case g k of None \<Rightarrow> [] | Some t \<Rightarrow> t)"

text \<open>
  \<^verbatim>\<open>re.findall(pattern, s)\<close> for a pattern with one capturing group, as the patterns of
  the notebooks are: the text of group 1 of every match, scanning left to right, each
  scan starting where the last match ended. After a match that read nothing the scan
  moves one character on; no pattern of the notebooks matches the empty string.
\<close>

function re_findall :: "digit_table \<Rightarrow> regex \<Rightarrow> pystr \<Rightarrow> pystr list" where
  "re_findall dv r s =
     (case mtch dv r (s, Map.empty) of
        [] \<Rightarrow> (case s of [] \<Rightarrow> [] | _ # t \<Rightarrow> re_findall dv r t)
      | m # _ \<Rightarrow>
          group_text (snd m) 1 #
            (if length (fst m) < length s then re_findall dv r (fst m)
             else (case s of [] \<Rightarrow> [] | _ # t \<Rightarrow> re_findall dv r t)))"
  by pat_completeness auto
termination
  by (relation "measure (\<lambda>(dv, r, s). length s)") auto

section \<open>The fee extraction notebook\<close>

text \<open>\<^verbatim>\<open>pattern = r'(\d{1,3}(?:[.,]\d{3})+|\d{3,})'\<close>, of the cell that defines \<^verbatim>\<open>filter_lines\<close>.\<close>

definition number_pattern :: regex where
  "number_pattern =
     Group 1
       (Alt (Seq (Rep Digit 1 (Some 3))
                 (Rep (Seq (OneOf [46, 44]) (Rep Digit 3 (Some 3))) 1 None))
            (Rep Digit 3 None))"

text \<open>
  \<^verbatim>\<open>
  def filter_lines(text):
      lines = text.split('\n')
      filtered = [line for line in lines if re.search(pattern, line)]
      return "\n".join(filtered)
  \<close>
\<close>

definition filter_lines :: "digit_table \<Rightarrow> pystr \<Rightarrow> pystr" where
  "filter_lines dv text =
     (let lines = split_on 10 text;
          filtered = filter (\<lambda>line. re_search dv number_pattern line \<noteq> None) lines
      in join_with 10 filtered)"

text \<open>\<^verbatim>\<open>pattern = r'(\d{3,})'\<close>, of the cell that defines \<^verbatim>\<open>extract_and_sum\<close>.\<close>

definition fee_pattern :: regex where
  "fee_pattern = Group 1 (Rep Digit 3 None)"

text \<open>
  \<^verbatim>\<open>
  def extract_and_sum(text, pattern):
      matches = re.findall(pattern, text)
      total = 0
      for match in matches:
          total += int(match)
      return total
  \<close>
  The loop is \<open>sum_matches\<close>, with \<open>tot\<close> for \<^verbatim>\<open>total\<close>: it ends at the first match on
  which \<^verbatim>\<open>int\<close> raises. \<open>None\<close> is a match \<open>py_int\<close> does not cover.
\<close>

fun sum_matches :: "digit_table \<Rightarrow> pystr list \<Rightarrow> int \<Rightarrow> (py_error + int) option" where
  "sum_matches dv [] tot = Some (Inr tot)"
| "sum_matches dv (m # ms) tot =
     (case py_int dv m of
        None \<Rightarrow> None
      | Some (Inl e) \<Rightarrow> Some (Inl e)
      | Some (Inr v) \<Rightarrow> sum_matches dv ms (tot + v))"

definition extract_and_sum :: "digit_table \<Rightarrow> pystr \<Rightarrow> regex \<Rightarrow> (py_error + int) option" where
  "extract_and_sum dv text pattern = sum_matches dv (re_findall dv pattern text) 0"

section \<open>Reference notions for the fee extraction\<close>

text \<open>
  The maximal runs of digits of a text, left to right: a run starts at a digit that no
  digit precedes and goes on as long as digits follow.
\<close>

function digit_runs :: "(nat \<Rightarrow> bool) \<Rightarrow> pystr \<Rightarrow> pystr list" where
  "digit_runs P [] = []"
| "digit_runs P (c # cs) =
     (if P c then (c # takeWhile P cs) # digit_runs P (dropWhile P cs)
      else digit_runs P cs)"
  by pat_completeness auto
termination
  by (relation "measure (\<lambda>(P, s). length s)") (auto simp: less_Suc_eq_le length_dropWhile_le)

text \<open>The runs of three or more digits.\<close>

definition long_runs :: "digit_table \<Rightarrow> pystr \<Rightarrow> pystr list" where
  "long_runs dv text = filter (\<lambda>run. 3 \<le> length run) (digit_runs (is_digit dv) text)"

text \<open>The integer a run of digits denotes in decimal notation, most significant digit first.\<close>

definition digit_val :: "digit_table \<Rightarrow> nat \<Rightarrow> nat" where
  "digit_val dv c = (case dv c of None \<Rightarrow> 0 | Some d \<Rightarrow> d)"

fun decimal_value :: "digit_table \<Rightarrow> pystr \<Rightarrow> int" where
  "decimal_value dv [] = 0"
| "decimal_value dv (c # cs) = int (digit_val dv c) * 10 ^ length cs + decimal_value dv cs"

section \<open>Reference notions for pattern matching\<close>

text \<open>
  What it means for a string to match a pattern, without an engine: the language of the
  pattern. \<open>conc\<close> is concatenation of languages, \<open>lpow\<close> iterated concatenation.
\<close>

definition conc :: "pystr set \<Rightarrow> pystr set \<Rightarrow> pystr set" where
  "conc A B = {u @ v | u v. u \<in> A \<and> v \<in> B}"

primrec lpow :: "pystr set \<Rightarrow> nat \<Rightarrow> pystr set" where
  "lpow A 0 = {[]}"
| "lpow A (Suc n) = conc A (lpow A n)"

primrec lang :: "digit_table \<Rightarrow> regex \<Rightarrow> pystr set" where
  "lang dv (Lit c) = {[c]}"
| "lang dv Digit = {[c] | c. is_digit dv c}"
| "lang dv Dot = {[c] | c. c \<noteq> 10}"
| "lang dv (OneOf cs) = {[c] | c. c \<in> set cs}"
| "lang dv (Seq a b) = conc (lang dv a) (lang dv b)"
| "lang dv (Alt a b) = lang dv a \<union> lang dv b"
| "lang dv (Rep r lo hi) =
     {u. \<exists>k. lo \<le> k \<and> (case hi of None \<Rightarrow> True | Some h \<Rightarrow> k \<le> h) \<and> u \<in> lpow (lang dv r) k}"
| "lang dv (Group k r) = lang dv r"

text \<open>A line contains a substring that matches the pattern.\<close>

definition contains_match :: "digit_table \<Rightarrow> regex \<Rightarrow> pystr \<Rightarrow> bool" where
  "contains_match dv r line = (\<exists>u v w. line = u @ v @ w \<and> v \<in> lang dv r)"

section \<open>Coordinates of the misleading locations\<close>

text \<open>The pattern \<^verbatim>\<open>'/@(.*),'\<close>.\<close>

definition coords_pattern :: regex where
  "coords_pattern = Seq (Lit 47) (Seq (Lit 64) (Seq (Group 1 (Rep Dot 0 None)) (Lit 44)))"

text \<open>
  \<^verbatim>\<open>lambda x: re.search('/@(.*),', x).group(1).split(',')\<close>. With no match
  \<^verbatim>\<open>re.search\<close> returns \<^verbatim>\<open>None\<close>, and \<^verbatim>\<open>None.group\<close> raises \<^verbatim>\<open>AttributeError\<close>.
\<close>

definition real_coordinates_of :: "digit_table \<Rightarrow> pystr \<Rightarrow> py_error + pystr list" where
  "real_coordinates_of dv x =
     (case re_search dv coords_pattern x of
        None \<Rightarrow> Inl AttributeError
      | Some g \<Rightarrow> (case g 1 of None \<Rightarrow> Inl AttributeError | Some t \<Rightarrow> Inr (split_on 44 t)))"

text \<open>
  What the cell computes for one row: \<^verbatim>\<open>sublist\<close> from \<^verbatim>\<open>maps_herf\<close>, then
  \<^verbatim>\<open>float(sublist[0])\<close> and \<^verbatim>\<open>float(sublist[1])\<close>. \<^verbatim>\<open>float\<close> is the parameter
  \<open>py_float\<close>, which raises \<^verbatim>\<open>ValueError\<close> on a string that is no number.
\<close>

definition row_coordinates ::
  "digit_table \<Rightarrow> (pystr \<Rightarrow> py_error + 'f) \<Rightarrow> pystr \<Rightarrow> py_error + ('f \<times> 'f)" where
  "row_coordinates dv py_float x =
     ebind (real_coordinates_of dv x) (\<lambda>sublist.
     ebind (ebind (item sublist 0) py_float) (\<lambda>latitude.
     ebind (ebind (item sublist 1) py_float) (\<lambda>longitude.
     Inr (latitude, longitude))))"

text \<open>
  A stand-in for \<^verbatim>\<open>float\<close> on plain decimals \<^verbatim>\<open>d\<close> and \<^verbatim>\<open>d.d\<close>, for concrete runs: the
  value is the pair of the digits read as one integer and the number of decimals.
\<close>

definition decimal_float :: "pystr \<Rightarrow> py_error + (int \<times> nat)" where
  "decimal_float t =
     (case split_on 46 t of
        [a] \<Rightarrow> (case digits_value ascii_dv a of None \<Rightarrow> Inl ValueError | Some v \<Rightarrow> Inr (v, 0))
      | [a, b] \<Rightarrow>
          (case digits_value ascii_dv (a @ b) of
             None \<Rightarrow> Inl ValueError
           | Some v \<Rightarrow> if a = [] \<or> b = [] then Inl ValueError else Inr (v, length b))
      | _ \<Rightarrow> Inl ValueError)"

text \<open>
  Position \<open>p\<close> of \<open>x\<close> is an anchor: \<^verbatim>\<open>/@\<close> stands there and a comma follows it on the
  same line.
\<close>

definition anchor_at :: "pystr \<Rightarrow> nat \<Rightarrow> bool" where
  "anchor_at x p = (\<exists>a b. drop p x = 47 # 64 # a @ 44 # b \<and> 10 \<notin> set a)"

text \<open>
  \<open>x\<close> has a first anchor, two comma-separated tokens \<open>t0\<close> and \<open>t1\<close> follow it on its
  line, each closed by a comma, and \<^verbatim>\<open>float\<close> reads them as \<open>lat\<close> and \<open>lon\<close>.
\<close>

definition located :: "(pystr \<Rightarrow> py_error + 'f) \<Rightarrow> pystr \<Rightarrow> 'f \<Rightarrow> 'f \<Rightarrow> bool" where
  "located py_float x lat lon =
     (\<exists>pre t0 t1 rest.
        x = pre @ 47 # 64 # t0 @ 44 # t1 @ 44 # rest
        \<and> 44 \<notin> set t0 \<and> 10 \<notin> set t0 \<and> 44 \<notin> set t1 \<and> 10 \<notin> set t1
        \<and> (\<forall>p<length pre. \<not> anchor_at x p)
        \<and> py_float t0 = Inr lat \<and> py_float t1 = Inr lon)"

text \<open>
  The length of the first line of \<open>w\<close>, and whether a comma stands at position \<open>j\<close>:
  the positions up to which \<^verbatim>\<open>.*\<close> can read, and where the closing comma of the
  pattern can match.
\<close>

definition line_len :: "pystr \<Rightarrow> nat" where
  "line_len w = length (takeWhile (\<lambda>c. c \<noteq> 10) w)"

definition comma_at :: "pystr \<Rightarrow> nat \<Rightarrow> bool" where
  "comma_at w j = (j < length w \<and> w ! j = 44)"

section \<open>Tables\<close>

text \<open>
  A cell of a \<^verbatim>\<open>DataFrame\<close> holds a Python value: a string, a number whose value is an
  integer, a boolean, a missing value (\<open>NaN\<close>: what \<^verbatim>\<open>pd.isna\<close> accepts), or any other
  value (a float that is neither \<^verbatim>\<open>nan\<close> nor an integer, a timestamp). The other values
  are the type parameter \<open>'a\<close>: floating point arithmetic and comparison on them are
  parameters of the functions below. \<open>Integer v\<close> is the number \<open>v\<close>, held as an \<^verbatim>\<open>int\<close> or
  as a \<^verbatim>\<open>float\<close>: \<^verbatim>\<open>150 == 150.0\<close> in Python, and a cell does not record which of the two
  it is. What the change from \<^verbatim>\<open>int\<close> to \<^verbatim>\<open>float\<close> does to the value is \<open>float64_of_int\<close>
  below.
\<close>

type_synonym colname = string

datatype 'a cell = Str pystr | Integer int | Bool bool | NaN | Obj 'a

text \<open>
  A table is its column labels, in order, and its rows, in order. A row gives the cell
  under a label; the cells under labels that are not columns of the table are not part of
  it, and no operation below reads them. The row index of pandas is not modelled: each
  assignment of the notebooks combines a table with series computed from that same
  table, so rows correspond by position.
\<close>

type_synonym 'a row = "colname \<Rightarrow> 'a cell"

record 'a frame =
  columns :: "colname list"
  rows :: "'a row list"

text \<open>\<^verbatim>\<open>df[c]\<close> raises \<^verbatim>\<open>KeyError\<close> and \<^verbatim>\<open>df.c\<close> raises \<^verbatim>\<open>AttributeError\<close> for a missing column.\<close>

definition get_column :: "'a frame \<Rightarrow> colname \<Rightarrow> py_error + 'a cell list" where
  "get_column df c =
     (if c \<in> set (columns df) then Inr (map (\<lambda>r. r c) (rows df)) else Inl KeyError)"

definition get_attr :: "'a frame \<Rightarrow> colname \<Rightarrow> py_error + 'a cell list" where
  "get_attr df c =
     (if c \<in> set (columns df) then Inr (map (\<lambda>r. r c) (rows df)) else Inl AttributeError)"

text \<open>\<^verbatim>\<open>row[c]\<close> inside \<^verbatim>\<open>df.apply(..., axis=1)\<close>.\<close>

definition row_item :: "colname list \<Rightarrow> 'a row \<Rightarrow> colname \<Rightarrow> py_error + 'a cell" where
  "row_item cols r c = (if c \<in> set cols then Inr (r c) else Inl KeyError)"

text \<open>\<^verbatim>\<open>df[c] = values\<close>: the column is replaced, or appended when it is new.\<close>

definition set_column :: "'a frame \<Rightarrow> colname \<Rightarrow> 'a cell list \<Rightarrow> py_error + 'a frame" where
  "set_column df c vs =
     (if length vs \<noteq> length (rows df) then Inl ValueError
      else Inr (df\<lparr>columns := (if c \<in> set (columns df) then columns df else columns df @ [c]),
                   rows := map (\<lambda>(r, v). r(c := v)) (zip (rows df) vs)\<rparr>))"

text \<open>\<^verbatim>\<open>df[mask]\<close> for a boolean mask computed from \<open>df\<close>.\<close>

definition select_rows :: "'a frame \<Rightarrow> bool list \<Rightarrow> 'a frame" where
  "select_rows df keep = df\<lparr>rows := map fst (filter snd (zip (rows df) keep))\<rparr>"

text \<open>\<^verbatim>\<open>df[[c1, ..., cn]]\<close>.\<close>

definition select_columns :: "'a frame \<Rightarrow> colname list \<Rightarrow> py_error + 'a frame" where
  "select_columns df cs =
     (if set cs \<subseteq> set (columns df) then Inr (df\<lparr>columns := cs\<rparr>) else Inl KeyError)"

text \<open>\<^verbatim>\<open>df.drop(columns=labels)\<close>: \<^verbatim>\<open>KeyError\<close> when a label is not a column.\<close>

definition drop_columns :: "'a frame \<Rightarrow> colname list \<Rightarrow> py_error + 'a frame" where
  "drop_columns df labels =
     (if set labels \<subseteq> set (columns df)
      then Inr (df\<lparr>columns := filter (\<lambda>c. c \<notin> set labels) (columns df)\<rparr>)
      else Inl KeyError)"

text \<open>
  \<^verbatim>\<open>series.eq(True)\<close> on one cell. \<^verbatim>\<open>1 == True\<close> holds in Python; what an other value
  compares equal to is the parameter \<open>obj_eq\<close>.
\<close>

definition eq_True :: "('a \<Rightarrow> 'a cell \<Rightarrow> bool) \<Rightarrow> 'a cell \<Rightarrow> bool" where
  "eq_True obj_eq c =
     (case c of
        Bool b \<Rightarrow> b
      | Integer i \<Rightarrow> i = 1
      | Str s \<Rightarrow> False
      | NaN \<Rightarrow> False
      | Obj x \<Rightarrow> obj_eq x (Bool True))"

text \<open>
  \<^verbatim>\<open>df.set_index(key)[col]\<close>: a series, as the list of its (index, value) pairs.
\<close>

definition indexed_series ::
  "'a frame \<Rightarrow> colname \<Rightarrow> colname \<Rightarrow> py_error + ('a cell \<times> 'a cell) list" where
  "indexed_series df key col =
     ebind (get_column df key) (\<lambda>ks.
     ebind (get_column df col) (\<lambda>vs.
     Inr (zip ks vs)))"

text \<open>
  The number of binary digits of an integer that is not negative, \<^verbatim>\<open>int.bit_length\<close>.
\<close>

function bit_len :: "int \<Rightarrow> nat" where
  "bit_len n = (if n \<le> 0 then 0 else Suc (bit_len (n div 2)))"
  by pat_completeness auto
termination
  by (relation "measure nat") auto

declare bit_len.simps [simp del]

text \<open>
  The \<^verbatim>\<open>float64\<close> that an integer becomes when an \<^verbatim>\<open>int64\<close> array is converted: the
  nearest number with a significand of 53 binary digits, the one with the even
  significand when two are equally near. It is an integer again. \<open>m\<close> is the magnitude,
  \<open>e\<close> the number of binary digits that do not fit, \<open>q\<close> the significand, \<open>r\<close> what is
  cut off and \<open>rounded\<close> the significand after rounding.
\<close>

definition float64_of_int :: "int \<Rightarrow> int" where
  "float64_of_int v =
     (let m = \<bar>v\<bar>;
          e = bit_len m - 53;
          q = m div 2 ^ e;
          r = m mod 2 ^ e;
          rounded = (if 2 ^ e < 2 * r \<or> (2 * r = 2 ^ e \<and> odd q) then q + 1 else q)
      in sgn v * (rounded * 2 ^ e))"

definition is_integer :: "'a cell \<Rightarrow> bool" where
  "is_integer c = (case c of Integer v \<Rightarrow> True | _ \<Rightarrow> False)"

definition as_float64 :: "'a cell \<Rightarrow> 'a cell" where
  "as_float64 c = (case c of Integer v \<Rightarrow> Integer (float64_of_int v) | _ \<Rightarrow> c)"

text \<open>
  \<^verbatim>\<open>keys.map(series)\<close>: the value under each key, a missing value for a key that is not in
  the index; pandas raises \<^verbatim>\<open>InvalidIndexError\<close> when the index of \<open>series\<close> repeats a
  value. A series whose values are all integers is an \<^verbatim>\<open>int64\<close> array, which cannot hold
  a missing value: when some key is not in the index, the result is a \<^verbatim>\<open>float64\<close> array
  and every value in it has been converted.
\<close>

definition series_map :: "('a cell \<times> 'a cell) list \<Rightarrow> 'a cell list \<Rightarrow> py_error + 'a cell list" where
  "series_map series keys =
     (if distinct (map fst series)
      then let promoted = ((\<forall>v\<in>set (map snd series). is_integer v)
                            \<and> (\<exists>k\<in>set keys. map_of series k = None))
           in Inr (map (\<lambda>k. case map_of series k of
                               None \<Rightarrow> NaN
                             | Some v \<Rightarrow> if promoted then as_float64 v else v) keys)
      else Inl InvalidIndexError)"

text \<open>
  \<^verbatim>\<open>df.loc[mask, c] = values\<close>: the rows under the mask get the value of their position;
  a column that is new gets a missing value in the other rows. The numbers are stored
  with the values they are given with.
\<close>

definition loc_assign :: "'a frame \<Rightarrow> bool list \<Rightarrow> colname \<Rightarrow> 'a cell list \<Rightarrow> 'a frame" where
  "loc_assign df keep c vs =
     df\<lparr>columns := (if c \<in> set (columns df) then columns df else columns df @ [c]),
        rows := map (\<lambda>(r, b, v). if b then r(c := v)
                                  else if c \<in> set (columns df) then r else r(c := NaN))
                  (zip (rows df) (zip keep vs))\<rparr>"

text \<open>
  \<^verbatim>\<open>df.loc[df['link'].isin(m.index), c] = df['link'].map(m)\<close>. The right-hand side is
  evaluated first.
\<close>

definition assign_mapped ::
  "'a frame \<Rightarrow> colname \<Rightarrow> ('a cell \<times> 'a cell) list \<Rightarrow> py_error + 'a frame" where
  "assign_mapped df c m =
     ebind (get_column df ''link'') (\<lambda>links.
     ebind (series_map m links) (\<lambda>mapped.
     Inr (loc_assign df (map (\<lambda>l. l \<in> set (map fst m)) links) c mapped)))"

section \<open>The preparation notebook\<close>

subsection \<open>Misleading locations\<close>

text \<open>
  The cell that reads \<^verbatim>\<open>misleading_locations.csv\<close>: the flagged rows, then
  \<^verbatim>\<open>real_coordinates\<close>, \<^verbatim>\<open>latitude\<close> and \<^verbatim>\<open>longitude\<close>. \<^verbatim>\<open>re.search\<close> raises
  \<^verbatim>\<open>TypeError\<close> on a value that is not a string.
\<close>

definition real_coordinates :: "digit_table \<Rightarrow> 'a cell list \<Rightarrow> py_error + pystr list list" where
  "real_coordinates dv maps_herf =
     emap (\<lambda>x. case x of Str s \<Rightarrow> real_coordinates_of dv s | _ \<Rightarrow> Inl TypeError) maps_herf"

definition float_items ::
  "(pystr \<Rightarrow> py_error + 'f) \<Rightarrow> nat \<Rightarrow> pystr list list \<Rightarrow> py_error + 'f list" where
  "float_items py_float i rc = emap (\<lambda>sublist. ebind (item sublist i) py_float) rc"

definition misleading_locations ::
  "digit_table \<Rightarrow> (pystr \<Rightarrow> py_error + 'a cell) \<Rightarrow> ('a \<Rightarrow> 'a cell \<Rightarrow> bool) \<Rightarrow> 'a frame
     \<Rightarrow> py_error + 'a frame" where
  "misleading_locations dv py_float obj_eq df_locations =
     ebind (get_attr df_locations ''misleading_location'') (\<lambda>flag.
     let df_locations = select_rows df_locations (map (eq_True obj_eq) flag) in
     ebind (get_column df_locations ''maps_herf'') (\<lambda>maps_herf.
     ebind (real_coordinates dv maps_herf) (\<lambda>rc.
     ebind (float_items py_float 0 rc) (\<lambda>latitude.
     ebind (set_column df_locations ''latitude'' latitude) (\<lambda>df_locations.
     ebind (float_items py_float 1 rc) (\<lambda>longitude.
     set_column df_locations ''longitude'' longitude))))))"

text \<open>The cell that writes the corrected latitude, longitude and district into \<open>df\<close>.\<close>

definition correct_locations :: "'a frame \<Rightarrow> 'a frame \<Rightarrow> py_error + 'a frame" where
  "correct_locations df df_locations =
     ebind (indexed_series df_locations ''link'' ''latitude'') (\<lambda>latitude_map.
     ebind (indexed_series df_locations ''link'' ''longitude'') (\<lambda>longitude_map.
     ebind (indexed_series df_locations ''link'' ''real_district'') (\<lambda>district_map.
     ebind (assign_mapped df ''latitude'' latitude_map) (\<lambda>df.
     ebind (assign_mapped df ''longitude'' longitude_map) (\<lambda>df.
     assign_mapped df ''district'' district_map)))))"

subsection \<open>Hidden additional fees\<close>

text \<open>
  \<^verbatim>\<open>
  fees_map = df_fees.set_index('link')['real_additional_fees']
  df.loc[df['link'].isin(fees_map.index), 'additional_fees'] = df['link'].map(fees_map)
  \<close>
\<close>

definition add_hidden_fees :: "'a frame \<Rightarrow> 'a frame \<Rightarrow> py_error + 'a frame" where
  "add_hidden_fees df df_fees =
     ebind (indexed_series df_fees ''link'' ''real_additional_fees'') (\<lambda>fees_map.
     assign_mapped df ''additional_fees'' fees_map)"

subsection \<open>Distances to stops\<close>

text \<open>\<^verbatim>\<open>s.startswith(p)\<close> and \<^verbatim>\<open>p in s\<close>.\<close>

definition startswith :: "pystr \<Rightarrow> pystr \<Rightarrow> bool" where
  "startswith p s = (take (length p) s = p)"

fun contains :: "pystr \<Rightarrow> pystr \<Rightarrow> bool" where
  "contains p [] = (p = [])"
| "contains p (c # cs) = (startswith p (c # cs) \<or> contains p cs)"

text \<open>
  The name test of \<^verbatim>\<open>subway_stations\<close>. The patterns given to \<^verbatim>\<open>str.contains\<close> have no
  special character, so they are searched as they are. The letters outside ASCII are
  given by their code points (324 and 346). On a name that is not a string the \<^verbatim>\<open>str\<close>
  methods give a missing value, which the mask reads as false.
\<close>

definition subway_name :: "pystr \<Rightarrow> bool" where
  "subway_name s =
     (startswith (str ''Metro'') s
      \<or> contains (str ''Wilsona'') s
      \<or> contains (str ''Daszy'' @ [324] @ str ''skiego'') s
      \<or> contains (str ''Nowy '' @ [346] @ str ''wiat'') s
      \<or> contains (str ''ONZ'') s
      \<or> contains (str ''Wile'' @ [324] @ str ''ski'') s
      \<or> s = str ''Dw. Gda'' @ [324] @ str ''ski''
      \<or> s = str ''Centrum'')"

definition subway_mask :: "'a cell \<Rightarrow> bool" where
  "subway_mask c = (case c of Str s \<Rightarrow> subway_name s | _ \<Rightarrow> False)"

definition subway_stations :: "'a frame \<Rightarrow> py_error + 'a frame" where
  "subway_stations ztm_stops =
     ebind (get_attr ztm_stops ''stop_name'') (\<lambda>stop_name.
     Inr (select_rows ztm_stops (map subway_mask stop_name)))"

text \<open>
  Modelled from the spec: \<^verbatim>\<open>distance_to_nearest_stop\<close> is a function of
  \<^verbatim>\<open>modules.datakit\<close>, which is not among the sources. The specification calls it the
  spatial nearest-neighbor distance: for each listing, the least distance from the
  listing to a stop of the given table. The distance between a listing and a stop is the
  parameter \<open>metric\<close>, into any linear order. Over an empty stop table the least distance
  does not exist; the model raises there.
\<close>

fun nearest :: "('l \<Rightarrow> 's \<Rightarrow> 'd::linorder) \<Rightarrow> 'l \<Rightarrow> 's list \<Rightarrow> py_error + 'd" where
  "nearest metric l [] = Inl ValueError"
| "nearest metric l (s # ss) = Inr (fold (\<lambda>s d. min (metric l s) d) ss (metric l s))"

definition distance_to_nearest_stop ::
  "('a row \<Rightarrow> 'a row \<Rightarrow> 'd::linorder) \<Rightarrow> 'a frame \<Rightarrow> 'a frame \<Rightarrow> py_error + 'd list" where
  "distance_to_nearest_stop metric df stops =
     (if rows stops = [] then Inl ValueError
      else emap (\<lambda>l. nearest metric l (rows stops)) (rows df))"

text \<open>
  The three cells from \<^verbatim>\<open>df['distance_to_stop'] = ...\<close> to
  \<^verbatim>\<open>df['distance_to_subway'] = ...\<close>; \<open>to_cell\<close> is how a distance is stored in a cell.
\<close>

definition stop_distances ::
  "('a row \<Rightarrow> 'a row \<Rightarrow> 'd::linorder) \<Rightarrow> ('d \<Rightarrow> 'a cell) \<Rightarrow> 'a frame \<Rightarrow> 'a frame
     \<Rightarrow> py_error + 'a frame" where
  "stop_distances metric to_cell df ztm_stops =
     ebind (distance_to_nearest_stop metric df ztm_stops) (\<lambda>d.
     ebind (set_column df ''distance_to_stop'' (map to_cell d)) (\<lambda>df.
     ebind (subway_stations ztm_stops) (\<lambda>stations.
     ebind (distance_to_nearest_stop metric df stations) (\<lambda>d.
     set_column df ''distance_to_subway'' (map to_cell d)))))"

subsection \<open>Historical data\<close>

text \<open>\<^verbatim>\<open>legacy_data = legacy_data[~legacy_data.approximate_coordinates.eq(True)]\<close>\<close>

definition exact_coordinates :: "('a \<Rightarrow> 'a cell \<Rightarrow> bool) \<Rightarrow> 'a frame \<Rightarrow> py_error + 'a frame" where
  "exact_coordinates obj_eq legacy_data =
     ebind (get_attr legacy_data ''approximate_coordinates'') (\<lambda>flag.
     Inr (select_rows legacy_data (map (\<lambda>c. \<not> eq_True obj_eq c) flag)))"

text \<open>
  \<^verbatim>\<open>
  for column in columns_to_convert:
      legacy_data[column] = legacy_data[column].apply(lambda x: get_numbers(str(x)))
  \<close>
  \<^verbatim>\<open>get_numbers\<close> is a function of \<^verbatim>\<open>modules.datakit\<close> and \<^verbatim>\<open>str\<close> the built-in; both
  are parameters.
\<close>

fun convert_columns ::
  "(pystr \<Rightarrow> py_error + 'a cell) \<Rightarrow> ('a cell \<Rightarrow> pystr) \<Rightarrow> colname list \<Rightarrow> 'a frame
     \<Rightarrow> py_error + 'a frame" where
  "convert_columns get_numbers py_str [] legacy_data = Inr legacy_data"
| "convert_columns get_numbers py_str (column # others) legacy_data =
     ebind (get_column legacy_data column) (\<lambda>col.
     ebind (emap (\<lambda>x. get_numbers (py_str x)) col) (\<lambda>vs.
     ebind (set_column legacy_data column vs) (\<lambda>legacy_data.
     convert_columns get_numbers py_str others legacy_data)))"

text \<open>
  \<^verbatim>\<open>
  lambda row: row['rent_price'] + row['additional_fees']
      if not pd.isna(row['additional_fees']) else row['rent_price']
  \<close>
  \<^verbatim>\<open>+\<close> on two cells is the parameter \<open>py_add\<close>.
\<close>

definition rent_with_fees ::
  "('a cell \<Rightarrow> 'a cell \<Rightarrow> py_error + 'a cell) \<Rightarrow> colname list \<Rightarrow> 'a row \<Rightarrow> py_error + 'a cell" where
  "rent_with_fees py_add cols row =
     ebind (row_item cols row ''additional_fees'') (\<lambda>fees.
     if fees \<noteq> NaN
     then ebind (row_item cols row ''rent_price'') (\<lambda>rent.
          ebind (row_item cols row ''additional_fees'') (\<lambda>fees. py_add rent fees))
     else row_item cols row ''rent_price'')"

text \<open>
  The cell from \<^verbatim>\<open>columns_to_convert = ...\<close> to \<^verbatim>\<open>legacy_data['price_per_square'] = ...\<close>;
  \<^verbatim>\<open>/\<close> on two cells is the parameter \<open>py_truediv\<close>.
\<close>

definition price_per_square ::
  "(pystr \<Rightarrow> py_error + 'a cell) \<Rightarrow> ('a cell \<Rightarrow> pystr)
     \<Rightarrow> ('a cell \<Rightarrow> 'a cell \<Rightarrow> py_error + 'a cell) \<Rightarrow> ('a cell \<Rightarrow> 'a cell \<Rightarrow> py_error + 'a cell)
     \<Rightarrow> 'a frame \<Rightarrow> py_error + 'a frame" where
  "price_per_square get_numbers py_str py_add py_truediv legacy_data =
     ebind (convert_columns get_numbers py_str [''rent_price'', ''additional_fees'', ''area'']
              legacy_data) (\<lambda>legacy_data.
     ebind (emap (rent_with_fees py_add (columns legacy_data)) (rows legacy_data)) (\<lambda>rent.
     ebind (set_column legacy_data ''rent_price'' rent) (\<lambda>legacy_data.
     ebind (get_attr legacy_data ''rent_price'') (\<lambda>rent_price.
     ebind (get_attr legacy_data ''area'') (\<lambda>area.
     ebind (emap (\<lambda>(p, a). py_truediv p a) (zip rent_price area)) (\<lambda>pps.
     set_column legacy_data ''price_per_square'' pps))))))"

text \<open>The legacy table as it is passed to \<^verbatim>\<open>average_price_within_radius\<close>.\<close>

definition legacy_for_average ::
  "('a \<Rightarrow> 'a cell \<Rightarrow> bool) \<Rightarrow> (pystr \<Rightarrow> py_error + 'a cell) \<Rightarrow> ('a cell \<Rightarrow> pystr)
     \<Rightarrow> ('a cell \<Rightarrow> 'a cell \<Rightarrow> py_error + 'a cell) \<Rightarrow> ('a cell \<Rightarrow> 'a cell \<Rightarrow> py_error + 'a cell)
     \<Rightarrow> 'a frame \<Rightarrow> py_error + 'a frame" where
  "legacy_for_average obj_eq get_numbers py_str py_add py_truediv legacy_data =
     ebind (exact_coordinates obj_eq legacy_data) (\<lambda>legacy_data.
     price_per_square get_numbers py_str py_add py_truediv legacy_data)"

subsection \<open>Saving\<close>

text \<open>
  \<^verbatim>\<open>
  columns_to_drop = ['title', 'adv_description', 'link', 'last_update', 'location']
  df.drop(columns=columns_to_drop, inplace=True)
  \<close>
  The result is the table written to \<^verbatim>\<open>modeling_data.csv\<close>.
\<close>

definition columns_to_drop :: "colname list" where
  "columns_to_drop = [''title'', ''adv_description'', ''link'', ''last_update'', ''location'']"

definition modeling_data :: "'a frame \<Rightarrow> py_error + 'a frame" where
  "modeling_data df = drop_columns df columns_to_drop"


section \<open>The fee generation notebook\<close>

text \<open>
  \<^verbatim>\<open>df['filtered_description'] = df['adv_description'].apply(filter_lines)\<close> on one cell:
  a value that is not a string has no \<^verbatim>\<open>split\<close>.
\<close>

definition apply_filter_lines :: "digit_table \<Rightarrow> 'a cell \<Rightarrow> py_error + 'a cell" where
  "apply_filter_lines dv c =
     (case c of Str text \<Rightarrow> Inr (Str (filter_lines dv text)) | _ \<Rightarrow> Inl AttributeError)"

text \<open>
  The cells from \<^verbatim>\<open>df = df[df.added_dt.le('2025-02-04')&df.additional_fees.lt(100)]\<close> to
  \<^verbatim>\<open>df = df[df.filtered_description.ne('')]\<close>. The comparisons of pandas on one cell are
  the parameters \<open>series_le\<close> and \<open>series_lt\<close>.
\<close>

definition llm_candidates ::
  "digit_table \<Rightarrow> ('a cell \<Rightarrow> 'a cell \<Rightarrow> py_error + bool) \<Rightarrow> ('a cell \<Rightarrow> 'a cell \<Rightarrow> py_error + bool)
     \<Rightarrow> 'a frame \<Rightarrow> py_error + 'a frame" where
  "llm_candidates dv series_le series_lt df =
     ebind (get_attr df ''added_dt'') (\<lambda>added_dt.
     ebind (emap (\<lambda>x. series_le x (Str (str ''2025-02-04''))) added_dt) (\<lambda>le.
     ebind (get_attr df ''additional_fees'') (\<lambda>additional_fees.
     ebind (emap (\<lambda>x. series_lt x (Integer 100)) additional_fees) (\<lambda>lt.
     let df = select_rows df (map (\<lambda>(a, b). a \<and> b) (zip le lt)) in
     ebind (select_columns df [''link'', ''rent'', ''additional_fees'', ''adv_description'']) (\<lambda>df.
     ebind (get_column df ''adv_description'') (\<lambda>adv_description.
     ebind (emap (apply_filter_lines dv) adv_description) (\<lambda>filtered.
     ebind (set_column df ''filtered_description'' filtered) (\<lambda>df.
     ebind (get_attr df ''filtered_description'') (\<lambda>filtered_description.
     Inr (select_rows df (map (\<lambda>c. c \<noteq> Str []) filtered_description)))))))))))"

text \<open>
  \<^verbatim>\<open>df['real_additional_fees'] = df['llm_output'].apply(lambda x: extract_and_sum(x, pattern))\<close>
  on one cell: \<^verbatim>\<open>re.findall\<close> raises \<^verbatim>\<open>TypeError\<close> on a value that is not a string, and
  an exception of \<open>extract_and_sum\<close> ends the \<^verbatim>\<open>apply\<close>. The branch for \<open>None\<close> is never
  taken: with this pattern every match is a string of digits.
\<close>

definition apply_extract_and_sum :: "digit_table \<Rightarrow> 'a cell \<Rightarrow> py_error + 'a cell" where
  "apply_extract_and_sum dv c =
     (case c of
        Str text \<Rightarrow>
          (case extract_and_sum dv text fee_pattern of
             None \<Rightarrow> Inl OtherError
           | Some (Inl e) \<Rightarrow> Inl e
           | Some (Inr v) \<Rightarrow> Inr (Integer v))
      | _ \<Rightarrow> Inl TypeError)"

text \<open>
  The cells from \<^verbatim>\<open>df['llm_output'] = ...\<close> on. \<open>query_llm\<close> is the request to the
  language model, a parameter: it is applied to the cells of \<^verbatim>\<open>filtered_description\<close>
  of the candidates, and to nothing else.
\<close>

definition fee_generation ::
  "digit_table \<Rightarrow> ('a cell \<Rightarrow> 'a cell \<Rightarrow> py_error + bool) \<Rightarrow> ('a cell \<Rightarrow> 'a cell \<Rightarrow> py_error + bool)
     \<Rightarrow> ('a cell \<Rightarrow> py_error + 'a cell) \<Rightarrow> 'a frame \<Rightarrow> py_error + 'a frame" where
  "fee_generation dv series_le series_lt query_llm df =
     ebind (llm_candidates dv series_le series_lt df) (\<lambda>df.
     ebind (get_column df ''filtered_description'') (\<lambda>filtered_description.
     ebind (emap query_llm filtered_description) (\<lambda>llm_output.
     ebind (set_column df ''llm_output'' llm_output) (\<lambda>df.
     ebind (get_column df ''llm_output'') (\<lambda>llm_output.
     ebind (emap (apply_extract_and_sum dv) llm_output) (\<lambda>fees.
     set_column df ''real_additional_fees'' fees))))))"

text \<open>
  A listing qualifies for the language model; \<open>text_of\<close> reads a string cell.
\<close>

definition text_of :: "'a cell \<Rightarrow> pystr" where
  "text_of c = (case c of Str t \<Rightarrow> t | _ \<Rightarrow> [])"

definition qualifies ::
  "digit_table \<Rightarrow> ('a cell \<Rightarrow> 'a cell \<Rightarrow> py_error + bool) \<Rightarrow> ('a cell \<Rightarrow> 'a cell \<Rightarrow> py_error + bool)
     \<Rightarrow> 'a row \<Rightarrow> bool" where
  "qualifies dv series_le series_lt r =
     (series_le (r ''added_dt'') (Str (str ''2025-02-04'')) = Inr True
      \<and> series_lt (r ''additional_fees'') (Integer 100) = Inr True
      \<and> (case r ''adv_description'' of Str t \<Rightarrow> filter_lines dv t \<noteq> [] | _ \<Rightarrow> False))"

section \<open>The preparation notebook as a whole\<close>

text \<open>
  What the notebook takes from outside. The functions of \<^verbatim>\<open>modules.datakit\<close> are not
  among the sources: \<^verbatim>\<open>deduplicate_main\<close>, \<^verbatim>\<open>transform_data\<close>, \<^verbatim>\<open>distance_to_center\<close>,
  \<^verbatim>\<open>get_numbers\<close> and \<^verbatim>\<open>average_price_within_radius\<close> are fields of the environment,
  and so are the distance behind \<^verbatim>\<open>distance_to_nearest_stop\<close>, the built-ins and operators
  of Python on cells, and \<^verbatim>\<open>DataFrame.merge\<close>.
\<close>

record ('a, 'd) environment =
  deduplicate_main :: "'a frame \<Rightarrow> py_error + 'a frame"
  transform_data :: "'a frame \<Rightarrow> bool \<Rightarrow> int \<Rightarrow> int \<Rightarrow> bool \<Rightarrow> py_error + 'a frame"
  distance_to_center :: "'a frame \<Rightarrow> py_error + 'a cell list"
  get_numbers :: "pystr \<Rightarrow> py_error + 'a cell"
  average_price_within_radius :: "'a frame \<Rightarrow> 'a frame \<Rightarrow> int \<times> nat \<Rightarrow> py_error + 'a cell list"
  env_metric :: "'a row \<Rightarrow> 'a row \<Rightarrow> 'd"
  env_to_cell :: "'d \<Rightarrow> 'a cell"
  env_digits :: digit_table
  env_float :: "pystr \<Rightarrow> py_error + 'a cell"
  env_str :: "'a cell \<Rightarrow> pystr"
  env_add :: "'a cell \<Rightarrow> 'a cell \<Rightarrow> py_error + 'a cell"
  env_truediv :: "'a cell \<Rightarrow> 'a cell \<Rightarrow> py_error + 'a cell"
  env_obj_eq :: "'a \<Rightarrow> 'a cell \<Rightarrow> bool"
  env_merge :: "'a frame \<Rightarrow> 'a frame \<Rightarrow> colname \<Rightarrow> py_error + 'a frame"

text \<open>
  The files the notebook reads, as tables; \<open>historical\<close> is what
  \<^verbatim>\<open>concat_csv_files\<close> returns for the folder of historical listings.
\<close>

record 'a inputs =
  main_csv :: "'a frame"
  misleading_locations_csv :: "'a frame"
  llm_output_csv :: "'a frame"
  ztm_stops_csv :: "'a frame"
  historical :: "'a frame"
  apartment_class_csv :: "'a frame"

text \<open>
  The sections of the notebook, by their headings. Each is a step on \<open>df\<close>, the one
  variable that lives across sections.
\<close>

datatype step =
    Deduplicate | Transform | CorrectLocations | HiddenFees | DistanceColumns
  | HistoricalAverage | ApartmentClasses | Save

definition locations_section :: "('a, 'd) environment \<Rightarrow> 'a inputs \<Rightarrow> 'a frame \<Rightarrow> py_error + 'a frame" where
  "locations_section env inp df =
     ebind (misleading_locations (env_digits env) (env_float env) (env_obj_eq env)
              (misleading_locations_csv inp)) (\<lambda>df_locations.
     correct_locations df df_locations)"

definition fees_section :: "'a inputs \<Rightarrow> 'a frame \<Rightarrow> py_error + 'a frame" where
  "fees_section inp df = add_hidden_fees df (llm_output_csv inp)"

definition distances_section ::
  "('a, 'd::linorder) environment \<Rightarrow> 'a inputs \<Rightarrow> 'a frame \<Rightarrow> py_error + 'a frame" where
  "distances_section env inp df =
     ebind (stop_distances (env_metric env) (env_to_cell env) df (ztm_stops_csv inp)) (\<lambda>df.
     ebind (distance_to_center env df) (\<lambda>d.
     set_column df ''distance_to_center'' d))"

text \<open>\<^verbatim>\<open>radius_km=0.5\<close> is passed as the digits 5 with one decimal.\<close>

definition average_section :: "('a, 'd) environment \<Rightarrow> 'a inputs \<Rightarrow> 'a frame \<Rightarrow> py_error + 'a frame" where
  "average_section env inp df =
     ebind (legacy_for_average (env_obj_eq env) (get_numbers env) (env_str env) (env_add env)
              (env_truediv env) (historical inp)) (\<lambda>legacy_data.
     ebind (average_price_within_radius env df legacy_data (5, 1)) (\<lambda>avg.
     set_column df ''avg_price'' avg))"

definition classes_section :: "('a, 'd) environment \<Rightarrow> 'a inputs \<Rightarrow> 'a frame \<Rightarrow> py_error + 'a frame" where
  "classes_section env inp df = env_merge env df (apartment_class_csv inp) ''link''"

definition notebook ::
  "('a, 'd::linorder) environment \<Rightarrow> 'a inputs \<Rightarrow> (step \<times> ('a frame \<Rightarrow> py_error + 'a frame)) list" where
  "notebook env inp =
     [(Deduplicate, deduplicate_main env),
      (Transform, \<lambda>df. transform_data env df True 1 28 True),
      (CorrectLocations, locations_section env inp),
      (HiddenFees, fees_section inp),
      (DistanceColumns, distances_section env inp),
      (HistoricalAverage, average_section env inp),
      (ApartmentClasses, classes_section env inp),
      (Save, modeling_data)]"

text \<open>
  Running the sections in order. A section that raises ends the run. The result is the
  list of the sections that were started, and the exception or the final table.
\<close>

fun run :: "(step \<times> ('s \<Rightarrow> py_error + 's)) list \<Rightarrow> 's \<Rightarrow> step list \<times> (py_error + 's)" where
  "run [] s = ([], Inr s)"
| "run ((tag, f) # cells) s =
     (case f s of
        Inl e \<Rightarrow> ([tag], Inl e)
      | Inr s' \<Rightarrow> (case run cells s' of (started, result) \<Rightarrow> (tag # started, result)))"

definition preparation ::
  "('a, 'd::linorder) environment \<Rightarrow> 'a inputs \<Rightarrow> step list \<times> (py_error + 'a frame)" where
  "preparation env inp = run (notebook env inp) (main_csv inp)"

text \<open>The sections that enrich the table.\<close>

definition enrichment :: "step set" where
  "enrichment = {CorrectLocations, HiddenFees, DistanceColumns, HistoricalAverage, ApartmentClasses}"

definition section_order :: "step list" where
  "section_order =
     [Deduplicate, Transform, CorrectLocations, HiddenFees, DistanceColumns, HistoricalAverage,
      ApartmentClasses, Save]"


section \<open>Sample values for concrete runs\<close>

text \<open>
  Stand-ins for the parameters, on cells without other values: numbers are integers,
  \<^verbatim>\<open>get_numbers\<close> reads a string of digits, division is exact division of integers,
  strings compare by code points, and the distance between two rows is the difference
  of their \<^verbatim>\<open>latitude\<close> cells. \<open>row_of\<close> builds a row from its cells.
\<close>

definition row_of :: "(colname \<times> 'a cell) list \<Rightarrow> 'a row" where
  "row_of cells c = (case map_of cells c of None \<Rightarrow> NaN | Some v \<Rightarrow> v)"

definition sample_str :: "unit cell \<Rightarrow> pystr" where
  "sample_str c = (case c of Str t \<Rightarrow> t | _ \<Rightarrow> str ''nan'')"

definition sample_get_numbers :: "pystr \<Rightarrow> py_error + unit cell" where
  "sample_get_numbers t = (case digits_value ascii_dv t of None \<Rightarrow> Inr NaN | Some v \<Rightarrow> Inr (Integer v))"

definition sample_add :: "unit cell \<Rightarrow> unit cell \<Rightarrow> py_error + unit cell" where
  "sample_add a b =
     (case a of
        Integer x \<Rightarrow> (case b of Integer y \<Rightarrow> Inr (Integer (x + y)) | _ \<Rightarrow> Inl TypeError)
      | _ \<Rightarrow> Inl TypeError)"

definition sample_truediv :: "unit cell \<Rightarrow> unit cell \<Rightarrow> py_error + unit cell" where
  "sample_truediv a b =
     (case a of
        Integer x \<Rightarrow>
          (case b of
             Integer y \<Rightarrow> if y \<noteq> 0 \<and> x mod y = 0 then Inr (Integer (x div y)) else Inl OtherError
           | _ \<Rightarrow> Inl TypeError)
      | _ \<Rightarrow> Inl TypeError)"

fun lex_le :: "pystr \<Rightarrow> pystr \<Rightarrow> bool" where
  "lex_le [] ys = True"
| "lex_le (x # xs) [] = False"
| "lex_le (x # xs) (y # ys) = (x < y \<or> (x = y \<and> lex_le xs ys))"

definition sample_le :: "unit cell \<Rightarrow> unit cell \<Rightarrow> py_error + bool" where
  "sample_le a b =
     (case a of
        Str x \<Rightarrow> (case b of Str y \<Rightarrow> Inr (lex_le x y) | _ \<Rightarrow> Inl TypeError)
      | _ \<Rightarrow> Inr False)"

definition sample_lt :: "unit cell \<Rightarrow> unit cell \<Rightarrow> py_error + bool" where
  "sample_lt a b =
     (case a of
        Integer x \<Rightarrow> (case b of Integer y \<Rightarrow> Inr (x < y) | _ \<Rightarrow> Inl TypeError)
      | _ \<Rightarrow> Inr False)"

definition sample_metric :: "unit row \<Rightarrow> unit row \<Rightarrow> nat" where
  "sample_metric l s =
     (case l ''latitude'' of
        Integer a \<Rightarrow> (case s ''latitude'' of Integer b \<Rightarrow> nat \<bar>a - b\<bar> | _ \<Rightarrow> 0)
      | _ \<Rightarrow> 0)"

definition sample_float :: "pystr \<Rightarrow> py_error + unit cell" where
  "sample_float t = (case digits_value ascii_dv t of None \<Rightarrow> Inl ValueError | Some v \<Rightarrow> Inr (Integer v))"

definition sample_env :: "(unit, nat) environment" where
  "sample_env =
     \<lparr>deduplicate_main = Inr,
      transform_data = (\<lambda>main only_expired duration_start duration_end utilize_morf. Inr main),
      distance_to_center = (\<lambda>df. Inr (map (\<lambda>r. Integer 0) (rows df))),
      get_numbers = sample_get_numbers,
      average_price_within_radius = (\<lambda>df legacy_data radius_km. Inr (map (\<lambda>r. NaN) (rows df))),
      env_metric = sample_metric,
      env_to_cell = (\<lambda>d. Integer (int d)),
      env_digits = ascii_dv,
      env_float = sample_float,
      env_str = sample_str,
      env_add = sample_add,
      env_truediv = sample_truediv,
      env_obj_eq = (\<lambda>x c. False),
      env_merge = (\<lambda>df other key. Inr df)\<rparr>"

definition sample_main :: "unit frame" where
  "sample_main =
     \<lparr>columns = [''link'', ''title'', ''adv_description'', ''last_update'', ''location'',
                 ''added_dt'', ''rent'', ''additional_fees'', ''latitude'', ''longitude'',
                 ''district''],
      rows = [row_of [(''link'', Str (str ''a'')), (''title'', Str (str ''t'')),
                      (''adv_description'', Str (str ''czynsz 650'')),
                      (''added_dt'', Str (str ''2025-01-15'')), (''rent'', Integer 2500),
                      (''additional_fees'', Integer 50), (''latitude'', Integer 10)],
              row_of [(''link'', Str (str ''b'')), (''title'', Str (str ''u'')),
                      (''adv_description'', Str (str ''bez oplat'')),
                      (''added_dt'', Str (str ''2025-03-01'')), (''rent'', Integer 3100),
                      (''additional_fees'', Integer 60), (''latitude'', Integer 20)]]\<rparr>"

definition sample_fees :: "unit frame" where
  "sample_fees =
     \<lparr>columns = [''link'', ''real_additional_fees''],
      rows = [row_of [(''link'', Str (str ''a'')), (''real_additional_fees'', Integer 650)]]\<rparr>"


definition sample_stops :: "unit frame" where
  "sample_stops =
     \<lparr>columns = [''stop_name'', ''latitude''],
      rows = [row_of [(''stop_name'', Str (str ''Metro Ratusz'')), (''latitude'', Integer 17)],
              row_of [(''stop_name'', Str (str ''Hoza'')), (''latitude'', Integer 12)]]\<rparr>"

definition sample_legacy :: "unit frame" where
  "sample_legacy =
     \<lparr>columns = [''approximate_coordinates'', ''rent_price'', ''additional_fees'', ''area''],
      rows = [row_of [(''approximate_coordinates'', Bool False), (''rent_price'', Str (str ''2000'')),
                      (''additional_fees'', Str (str ''500'')), (''area'', Str (str ''50''))],
              row_of [(''approximate_coordinates'', Bool True), (''rent_price'', Str (str ''1000'')),
                      (''additional_fees'', Str (str ''100'')), (''area'', Str (str ''10''))],
              row_of [(''rent_price'', Str (str ''3000'')), (''area'', Str (str ''60''))]]\<rparr>"

definition sample_locations :: "unit frame" where
  "sample_locations =
     \<lparr>columns = [''link'', ''misleading_location'', ''maps_herf'', ''real_district''],
      rows = [row_of [(''link'', Str (str ''b'')), (''misleading_location'', Bool True),
                      (''maps_herf'', Str (str ''m/@52,21,17z'')),
                      (''real_district'', Str (str ''Wola''))]]\<rparr>"

definition sample_inputs :: "unit inputs" where
  "sample_inputs =
     \<lparr>main_csv = sample_main,
      misleading_locations_csv = sample_locations,
      llm_output_csv = sample_fees,
      ztm_stops_csv = sample_stops,
      historical = sample_legacy,
      apartment_class_csv = \<lparr>columns = [''link''], rows = []\<rparr>\<rparr>"

section \<open>Properties of the fee extraction\<close>

subsection \<open>Matching a run of digits\<close>

lemma rep_class_first:
  assumes step: "\<And>s g. step (s, g) = (case s of [] \<Rightarrow> [] | x # xs \<Rightarrow> if P x then [(xs, g)] else [])"
  shows "\<lbrakk>lo \<le> length (takeWhile P s); length (takeWhile P s) \<le> n\<rbrakk>
   \<Longrightarrow> \<exists>rest. rep n step lo (s, g) = (drop (length (takeWhile P s)) s, g) # rest"
proof (induction n arbitrary: s lo)
  case 0
  then show ?case by simp
next
  case (Suc n)
  show ?case
  proof (cases s)
    case Nil
    with Suc.prems show ?thesis by (simp add: step)
  next
    case (Cons x xs)
    show ?thesis
    proof (cases "P x")
      case False
      with Cons Suc.prems show ?thesis by (simp add: step)
    next
      case True
      with Cons Suc.prems have "lo - 1 \<le> length (takeWhile P xs)"
        and "length (takeWhile P xs) \<le> n" by auto
      from Suc.IH[OF this] obtain rest where
        "rep n step (lo - 1) (xs, g) = (drop (length (takeWhile P xs)) xs, g) # rest" by blast
      with Cons True show ?thesis by (simp add: step)
    qed
  qed
qed

lemma rep_class_none:
  assumes step: "\<And>s g. step (s, g) = (case s of [] \<Rightarrow> [] | x # xs \<Rightarrow> if P x then [(xs, g)] else [])"
  shows "length (takeWhile P s) < lo \<Longrightarrow> rep n step lo (s, g) = []"
proof (induction n arbitrary: s lo)
  case 0
  then show ?case by simp
next
  case (Suc n)
  show ?case
  proof (cases s)
    case Nil
    with Suc.prems show ?thesis by (simp add: step)
  next
    case (Cons x xs)
    show ?thesis
    proof (cases "P x")
      case False
      with Cons Suc.prems show ?thesis by (simp add: step)
    next
      case True
      with Cons Suc.prems have "length (takeWhile P xs) < lo - 1" by auto
      from Suc.IH[OF this] Cons True Suc.prems show ?thesis by (simp add: step)
    qed
  qed
qed

lemma mtch_Digit_step:
  "mtch dv Digit (s, g) = (case s of [] \<Rightarrow> [] | x # xs \<Rightarrow> if is_digit dv x then [(xs, g)] else [])"
  by (cases s) simp_all

lemma takeWhile_eq_take_length: "takeWhile P s = take (length (takeWhile P s)) s"
  by (induction s) auto

lemma dropWhile_eq_drop_length: "dropWhile P s = drop (length (takeWhile P s)) s"
  by (induction s) auto

lemma mtch_fee_long:
  assumes "3 \<le> length (takeWhile (is_digit dv) s)"
  shows "\<exists>rest. mtch dv fee_pattern (s, Map.empty) =
           (dropWhile (is_digit dv) s, [1 \<mapsto> takeWhile (is_digit dv) s]) # rest"
proof -
  let ?k = "length (takeWhile (is_digit dv) s)"
  have "?k \<le> 3 + length s" using length_takeWhile_le[of "is_digit dv" s] by simp
  from rep_class_first[of "mtch dv Digit", OF mtch_Digit_step assms this] obtain rest where
    r: "rep (3 + length s) (mtch dv Digit) 3 (s, Map.empty) = (drop ?k s, Map.empty) # rest"
    by blast
  have "?k \<le> length s" by (rule length_takeWhile_le)
  then have "length s - length (drop ?k s) = ?k" by simp
  with r show ?thesis
    by (simp add: fee_pattern_def dropWhile_eq_drop_length[symmetric]
        takeWhile_eq_take_length[symmetric] del: mtch.simps(2))
qed

lemma mtch_fee_short:
  "length (takeWhile (is_digit dv) s) < 3 \<Longrightarrow> mtch dv fee_pattern (s, Map.empty) = []"
  using rep_class_none[of "mtch dv Digit", OF mtch_Digit_step]
  by (simp add: fee_pattern_def del: mtch.simps(2))

lemma long_runs_skip:
  "length (takeWhile P xs) < 3 \<Longrightarrow>
   filter (\<lambda>ds. 3 \<le> length ds) (digit_runs P (dropWhile P xs)) =
   filter (\<lambda>ds. 3 \<le> length ds) (digit_runs P xs)"
  by (cases xs) auto

lemma findall_fee_runs: "re_findall dv fee_pattern s = long_runs dv s"
proof (induction "length s" arbitrary: s rule: less_induct)
  case less
  let ?P = "is_digit dv"
  show ?case
  proof (cases "3 \<le> length (takeWhile ?P s)")
    case True
    then obtain x xs where s: "s = x # xs" and x: "?P x" by (cases s) (auto split: if_splits)
    from mtch_fee_long[OF True] obtain rest where
      m: "mtch dv fee_pattern (s, Map.empty) =
            (dropWhile ?P s, [1 \<mapsto> takeWhile ?P s]) # rest" by blast
    have shorter: "length (dropWhile ?P s) < length s"
      using s x length_dropWhile_le[of ?P xs] by simp
    from less[OF shorter] have ih: "re_findall dv fee_pattern (dropWhile ?P s) = long_runs dv (dropWhile ?P s)" .
    have "re_findall dv fee_pattern s = takeWhile ?P s # re_findall dv fee_pattern (dropWhile ?P s)"
      using m shorter by (subst re_findall.simps) (simp add: group_text_def)
    also have "\<dots> = long_runs dv s"
      using True s x ih by (simp add: long_runs_def)
    finally show ?thesis .
  next
    case False
    then have short: "length (takeWhile ?P s) < 3" by simp
    have m: "mtch dv fee_pattern (s, Map.empty) = []" by (rule mtch_fee_short[OF short])
    show ?thesis
    proof (cases s)
      case Nil
      with m show ?thesis by (subst re_findall.simps) (simp add: long_runs_def)
    next
      case (Cons x xs)
      have "re_findall dv fee_pattern s = re_findall dv fee_pattern xs"
        using m Cons by (subst re_findall.simps) simp
      also have "\<dots> = long_runs dv xs" using less[of xs] Cons by simp
      also have "\<dots> = long_runs dv s"
      proof (cases "?P x")
        case True
        with short Cons have "length (takeWhile ?P xs) < 3" by simp
        from long_runs_skip[OF this] True Cons short show ?thesis
          by (simp add: long_runs_def)
      next
        case False
        with Cons show ?thesis by (simp add: long_runs_def)
      qed
      finally show ?thesis .
    qed
  qed
qed

lemma digit_runs_digits: "ds \<in> set (digit_runs P s) \<Longrightarrow> ds \<noteq> [] \<and> list_all P ds"
proof (induction "length s" arbitrary: s rule: less_induct)
  case less
  show ?case
  proof (cases s)
    case Nil
    with less.prems show ?thesis by simp
  next
    case (Cons x xs)
    have le: "length (dropWhile P xs) < length s" using Cons length_dropWhile_le[of P xs] by simp
    show ?thesis
    proof (cases "P x")
      case True
      with less.prems Cons have "ds = x # takeWhile P xs \<or> ds \<in> set (digit_runs P (dropWhile P xs))"
        by simp
      then show ?thesis
      proof
        assume "ds = x # takeWhile P xs"
        with True show ?thesis by (auto simp: list_all_iff dest: set_takeWhileD)
      next
        assume "ds \<in> set (digit_runs P (dropWhile P xs))"
        from less.hyps[OF le this] show ?thesis .
      qed
    next
      case False
      with less.prems Cons have "ds \<in> set (digit_runs P xs)" by simp
      with less.hyps[of xs] Cons show ?thesis by simp
    qed
  qed
qed

lemma those_digits:
  "list_all (is_digit dv) s \<Longrightarrow> those (map dv s) = Some (map (digit_val dv) s)"
  by (induction s) (auto simp: is_digit_def digit_val_def)

lemma foldl_decimal:
  "foldl (\<lambda>a d. 10 * a + int d) a (map (digit_val dv) s) = a * 10 ^ length s + decimal_value dv s"
  by (induction s arbitrary: a) (simp_all add: algebra_simps)

lemma digits_value_digits:
  "\<lbrakk>s \<noteq> []; list_all (is_digit dv) s\<rbrakk> \<Longrightarrow> digits_value dv s = Some (decimal_value dv s)"
  by (simp add: digits_value_def those_digits foldl_decimal)

lemma py_int_digits:
  "\<lbrakk>s \<noteq> []; list_all (is_digit dv) s\<rbrakk> \<Longrightarrow>
   py_int dv s =
     Some (if length s \<le> int_max_str_digits then Inr (decimal_value dv s) else Inl ValueError)"
  by (simp add: py_int_def digits_value_digits not_less)

lemma sum_matches_digits:
  "(\<And>m. m \<in> set ms \<Longrightarrow> m \<noteq> [] \<and> list_all (is_digit dv) m) \<Longrightarrow>
   sum_matches dv ms tot =
     Some (if \<forall>m\<in>set ms. length m \<le> int_max_str_digits
           then Inr (tot + sum_list (map (decimal_value dv) ms)) else Inl ValueError)"
  by (induction ms arbitrary: tot) (simp_all add: py_int_digits)

lemma decimal_value_nonneg: "0 \<le> decimal_value dv s"
  by (induction s) simp_all

lemma sum_decimal_nonneg: "0 \<le> sum_list (map (decimal_value dv) ms)"
  by (induction ms) (simp_all add: decimal_value_nonneg)

lemma long_runs_digits: "m \<in> set (long_runs dv text) \<Longrightarrow> m \<noteq> [] \<and> list_all (is_digit dv) m"
  unfolding long_runs_def using digit_runs_digits by fastforce

lemma extract_and_sum_fee:
  "extract_and_sum dv text fee_pattern =
     Some (if \<forall>ds\<in>set (long_runs dv text). length ds \<le> int_max_str_digits
           then Inr (sum_list (map (decimal_value dv) (long_runs dv text)))
           else Inl ValueError)"
  unfolding extract_and_sum_def findall_fee_runs
  by (simp add: sum_matches_digits[OF long_runs_digits])

section \<open>The matcher against the language of a pattern\<close>

lemma rep_sound:
  assumes step: "\<And>st st'. st' \<in> set (step st) \<Longrightarrow> \<exists>u\<in>L. fst st = u @ fst st'"
  shows "st' \<in> set (rep n step lo st) \<Longrightarrow>
         \<exists>k u. lo \<le> k \<and> k \<le> n \<and> u \<in> lpow L k \<and> fst st = u @ fst st'"
proof (induction n arbitrary: lo st)
  case 0
  then show ?case by (auto split: if_splits)
next
  case (Suc n)
  from Suc.prems consider
    (more) st1 where "st1 \<in> set (step st)" "st' \<in> set (rep n step (lo - 1) st1)"
  | (stop) "lo = 0" "st' = st"
    by (auto split: if_splits)
  then show ?case
  proof cases
    case more
    from step[OF more(1)] obtain a where a: "a \<in> L" "fst st = a @ fst st1" by blast
    from Suc.IH[OF more(2)] obtain k u where
      k: "lo - 1 \<le> k" "k \<le> n" "u \<in> lpow L k" "fst st1 = u @ fst st'" by blast
    from a k have "a @ u \<in> lpow L (Suc k)" by (auto simp: conc_def)
    moreover from a k have "fst st = (a @ u) @ fst st'" by simp
    moreover from k have "lo \<le> Suc k" "Suc k \<le> Suc n" by auto
    ultimately show ?thesis by blast
  next
    case stop
    then have "lo \<le> 0 \<and> 0 \<le> Suc n \<and> [] \<in> lpow L 0 \<and> fst st = [] @ fst st'" by simp
    then show ?thesis by blast
  qed
qed

lemma rep_complete:
  assumes step: "\<And>u s g. u \<in> L \<Longrightarrow> \<exists>g'. (s, g') \<in> set (step (u @ s, g))"
  shows "\<lbrakk>u \<in> lpow L k; lo \<le> k; k \<le> n\<rbrakk> \<Longrightarrow> \<exists>g'. (s, g') \<in> set (rep n step lo (u @ s, g))"
proof (induction n arbitrary: k lo u g)
  case 0
  then show ?case by simp
next
  case (Suc n)
  show ?case
  proof (cases k)
    case 0
    with Suc.prems show ?thesis by auto
  next
    case (Suc k')
    with Suc.prems obtain a b where ab: "u = a @ b" "a \<in> L" "b \<in> lpow L k'"
      by (auto simp: conc_def)
    from step[OF ab(2)] obtain g1 where g1: "(b @ s, g1) \<in> set (step (a @ b @ s, g))" by blast
    from Suc.prems \<open>k = Suc k'\<close> have "lo - 1 \<le> k'" "k' \<le> n" by auto
    from Suc.IH[OF ab(3) this] obtain g' where
      "(s, g') \<in> set (rep n step (lo - 1) (b @ s, g1))" by blast
    with g1 ab show ?thesis by auto
  qed
qed

lemma lpow_shrink: "\<lbrakk>u \<in> lpow L (Suc k); length u \<le> k\<rbrakk> \<Longrightarrow> u \<in> lpow L k"
proof (induction k arbitrary: u)
  case 0
  then show ?case by (auto simp: conc_def)
next
  case (Suc k)
  from Suc.prems(1) obtain a b where ab: "u = a @ b" "a \<in> L" "b \<in> lpow L (Suc k)"
    by (auto simp: conc_def)
  show ?case
  proof (cases "a = []")
    case True
    with ab show ?thesis by simp
  next
    case False
    with ab Suc.prems(2) have "length b \<le> k" by (cases a) auto
    from Suc.IH[OF ab(3) this] ab show ?thesis by (auto simp: conc_def)
  qed
qed

lemma lpow_bound:
  "\<lbrakk>u \<in> lpow L k; lo \<le> k\<rbrakk> \<Longrightarrow> \<exists>k'. lo \<le> k' \<and> k' \<le> lo + length u \<and> u \<in> lpow L k'"
proof (induction k)
  case 0
  then show ?case by auto
next
  case (Suc k)
  show ?case
  proof (cases "Suc k \<le> lo + length u")
    case True
    with Suc.prems show ?thesis by blast
  next
    case False
    then have "length u \<le> k" "lo \<le> k" by auto
    from lpow_shrink[OF Suc.prems(1) this(1)] Suc.IH this(2) show ?thesis by blast
  qed
qed

lemma mtch_atom_sound:
  assumes "t \<in> set (case fst st of [] \<Rightarrow> [] | x # xs \<Rightarrow> if P x then [(xs, snd st)] else [])"
  shows "\<exists>c. P c \<and> fst st = [c] @ fst t"
proof (cases "fst st")
  case Nil
  with assms show ?thesis by simp
next
  case (Cons x xs)
  with assms show ?thesis by (cases "P x") auto
qed

lemma mtch_sound:
  "st' \<in> set (mtch dv r st) \<Longrightarrow> \<exists>u\<in>lang dv r. fst st = u @ fst st'"
proof (induction r arbitrary: st st')
  case (Lit c)
  from mtch_atom_sound[where P="\<lambda>x. x = c" and st=st and t="st'"] Lit show ?case by simp
next
  case Digit
  from mtch_atom_sound[where P="is_digit dv" and st=st and t="st'"] Digit show ?case by auto
next
  case Dot
  from mtch_atom_sound[where P="\<lambda>x. x \<noteq> 10" and st=st and t="st'"] Dot show ?case by auto
next
  case (OneOf cs)
  from mtch_atom_sound[where P="\<lambda>x. x \<in> set cs" and st=st and t="st'"] OneOf show ?case by auto
next
  case (Seq a b)
  from Seq.prems obtain st1 where s1: "st1 \<in> set (mtch dv a st)" "st' \<in> set (mtch dv b st1)"
    by auto
  from Seq.IH(1)[OF s1(1)] obtain u where u: "u \<in> lang dv a" "fst st = u @ fst st1" by blast
  from Seq.IH(2)[OF s1(2)] obtain v where v: "v \<in> lang dv b" "fst st1 = v @ fst st'" by blast
  from u v have "u @ v \<in> lang dv (Seq a b)" by (auto simp: conc_def)
  moreover from u v have "fst st = (u @ v) @ fst st'" by simp
  ultimately show ?case by blast
next
  case (Alt a b)
  from Alt.prems have "st' \<in> set (mtch dv a st) \<or> st' \<in> set (mtch dv b st)" by simp
  then show ?case
  proof
    assume "st' \<in> set (mtch dv a st)"
    from Alt.IH(1)[OF this] show ?thesis by auto
  next
    assume "st' \<in> set (mtch dv b st)"
    from Alt.IH(2)[OF this] show ?thesis by auto
  qed
next
  case (Rep r lo hi)
  let ?n = "case hi of None \<Rightarrow> lo + length (fst st) | Some h \<Rightarrow> h"
  from Rep.prems have "st' \<in> set (rep ?n (mtch dv r) lo st)" by simp
  from rep_sound[of "mtch dv r" "lang dv r", OF Rep.IH this] obtain k u where
    "lo \<le> k" "k \<le> ?n" "u \<in> lpow (lang dv r) k" "fst st = u @ fst st'" by blast
  then show ?case by (cases hi) auto
next
  case (Group k r)
  from Group.prems obtain s1 g1 where
    "(s1, g1) \<in> set (mtch dv r st)" "fst st' = s1" by auto
  with Group.IH[of "(s1, g1)" st] show ?case by simp
qed

lemma mtch_complete:
  "u \<in> lang dv r \<Longrightarrow> \<exists>g'. (s, g') \<in> set (mtch dv r (u @ s, g))"
proof (induction r arbitrary: u s g)
  case (Seq a b)
  from Seq.prems obtain v w where vw: "u = v @ w" "v \<in> lang dv a" "w \<in> lang dv b"
    by (auto simp: conc_def)
  from Seq.IH(1)[OF vw(2), of "w @ s" g] obtain g1 where
    g1: "(w @ s, g1) \<in> set (mtch dv a (v @ w @ s, g))" by blast
  from Seq.IH(2)[OF vw(3), of s g1] obtain g2 where
    "(s, g2) \<in> set (mtch dv b (w @ s, g1))" by blast
  with g1 vw show ?case by auto
next
  case (Alt a b)
  then show ?case by fastforce
next
  case (Rep r lo hi)
  from Rep.prems obtain k where
    k: "lo \<le> k" "case hi of None \<Rightarrow> True | Some h \<Rightarrow> k \<le> h" "u \<in> lpow (lang dv r) k"
    by auto
  have step: "\<And>u s g. u \<in> lang dv r \<Longrightarrow> \<exists>g'. (s, g') \<in> set (mtch dv r (u @ s, g))"
    by (rule Rep.IH)
  show ?case
  proof (cases hi)
    case None
    from lpow_bound[OF k(3) k(1)] obtain k' where
      k': "lo \<le> k'" "k' \<le> lo + length u" "u \<in> lpow (lang dv r) k'" by blast
    then have "k' \<le> lo + length (u @ s)" by simp
    from rep_complete[of "lang dv r" "mtch dv r", OF step k'(3) k'(1) this]
    show ?thesis using None by simp
  next
    case (Some h)
    with k have "k \<le> h" by simp
    from rep_complete[of "lang dv r" "mtch dv r", OF step k(3) k(1) this]
    show ?thesis using Some by simp
  qed
next
  case (Group k r)
  from Group.IH[OF Group.prems[simplified], of s g] obtain g' where
    "(s, g') \<in> set (mtch dv r (u @ s, g))" by blast
  then show ?case by force
qed auto

lemma mtch_nonempty_iff:
  "mtch dv r (t, g) \<noteq> [] \<longleftrightarrow> (\<exists>v w. t = v @ w \<and> v \<in> lang dv r)"
proof
  assume "mtch dv r (t, g) \<noteq> []"
  then obtain st' where "st' \<in> set (mtch dv r (t, g))" by (cases "mtch dv r (t, g)") auto
  from mtch_sound[OF this] show "\<exists>v w. t = v @ w \<and> v \<in> lang dv r" by auto
next
  assume "\<exists>v w. t = v @ w \<and> v \<in> lang dv r"
  then obtain v w where "t = v @ w" "v \<in> lang dv r" by blast
  with mtch_complete[of v dv r w g] show "mtch dv r (t, g) \<noteq> []" by auto
qed

lemma re_search_suffix:
  "re_search dv r s \<noteq> None \<longleftrightarrow> (\<exists>u t. s = u @ t \<and> mtch dv r (t, Map.empty) \<noteq> [])"
proof (induction s)
  case Nil
  then show ?case by (auto split: list.splits)
next
  case (Cons c cs)
  show ?case
  proof (cases "mtch dv r (c # cs, Map.empty)")
    case (Cons m ms)
    then have "c # cs = [] @ (c # cs) \<and> mtch dv r (c # cs, Map.empty) \<noteq> []" by simp
    then have "\<exists>u t. c # cs = u @ t \<and> mtch dv r (t, Map.empty) \<noteq> []" by blast
    with Cons show ?thesis by simp
  next
    case Nil
    have "(\<exists>u t. c # cs = u @ t \<and> mtch dv r (t, Map.empty) \<noteq> []) \<longleftrightarrow>
          (\<exists>u t. cs = u @ t \<and> mtch dv r (t, Map.empty) \<noteq> [])"
    proof
      assume "\<exists>u t. c # cs = u @ t \<and> mtch dv r (t, Map.empty) \<noteq> []"
      then obtain u t where ut: "c # cs = u @ t" "mtch dv r (t, Map.empty) \<noteq> []" by blast
      with Nil obtain u' where "u = c # u'" by (cases u) auto
      with ut show "\<exists>u t. cs = u @ t \<and> mtch dv r (t, Map.empty) \<noteq> []" by auto
    next
      assume "\<exists>u t. cs = u @ t \<and> mtch dv r (t, Map.empty) \<noteq> []"
      then obtain u t where "cs = u @ t" "mtch dv r (t, Map.empty) \<noteq> []" by blast
      then have "c # cs = (c # u) @ t \<and> mtch dv r (t, Map.empty) \<noteq> []" by simp
      then show "\<exists>u t. c # cs = u @ t \<and> mtch dv r (t, Map.empty) \<noteq> []" by blast
    qed
    with Nil Cons.IH show ?thesis by simp
  qed
qed

lemma re_search_contains: "re_search dv r s \<noteq> None \<longleftrightarrow> contains_match dv r s"
  unfolding re_search_suffix mtch_nonempty_iff contains_match_def by blast

section \<open>Properties of \<^verbatim>\<open>filter_lines\<close>\<close>

lemma split_on_nonempty: "split_on sep s \<noteq> []"
  by (induction s) (auto split: list.splits)

lemma split_on_no_sep: "l \<in> set (split_on sep s) \<Longrightarrow> sep \<notin> set l"
  by (induction s arbitrary: l) (auto split: list.splits if_splits)

lemma split_on_plain: "sep \<notin> set p \<Longrightarrow> split_on sep p = [p]"
  by (induction p) auto

lemma split_on_append: "sep \<notin> set p \<Longrightarrow> split_on sep (p @ sep # rest) = p # split_on sep rest"
  by (induction p) auto

lemma split_join:
  "\<lbrakk>ls \<noteq> []; \<And>l. l \<in> set ls \<Longrightarrow> sep \<notin> set l\<rbrakk> \<Longrightarrow> split_on sep (join_with sep ls) = ls"
proof (induction sep ls rule: join_with.induct)
  case (1 sep)
  then show ?case by simp
next
  case (2 sep p)
  then show ?case by (simp add: split_on_plain)
next
  case (3 sep p q ps)
  then show ?case by (simp add: split_on_append)
qed

lemma number_pattern_not_empty: "re_search dv number_pattern [] = None"
  by (simp add: number_pattern_def eval_nat_numeral)

text \<open>
  Claim C8. For every text, \<^verbatim>\<open>filter_lines(text)\<close> is the newline-join of exactly those
  lines of the text (split on newline) that contain a substring matching
  \<^verbatim>\<open>(\d{1,3}(?:[.,]\d{3})+|\d{3,})\<close>, in their original order; and \<^verbatim>\<open>filter_lines\<close> is
  idempotent.
\<close>

theorem filter_lines_contains_match:
  "filter_lines dv text =
     join_with 10 (filter (contains_match dv number_pattern) (split_on 10 text))
   \<and> filter_lines dv (filter_lines dv text) = filter_lines dv text"
proof -
  let ?P = "\<lambda>line. re_search dv number_pattern line \<noteq> None"
  let ?F = "filter ?P (split_on 10 text)"
  have spec: "filter_lines dv text =
      join_with 10 (filter (contains_match dv number_pattern) (split_on 10 text))"
    by (simp only: filter_lines_def Let_def re_search_contains)
  have idem: "filter_lines dv (filter_lines dv text) = filter_lines dv text"
  proof (cases "?F = []")
    case True
    then have "filter_lines dv text = []" by (simp add: filter_lines_def)
    then show ?thesis by (simp add: filter_lines_def number_pattern_not_empty)
  next
    case False
    have "\<And>l. l \<in> set ?F \<Longrightarrow> 10 \<notin> set l" using split_on_no_sep by fastforce
    from split_join[OF False this] have "split_on 10 (join_with 10 ?F) = ?F" by simp
    then show ?thesis by (simp add: filter_lines_def)
  qed
  from spec idem show ?thesis by simp
qed

theorem filter_lines_contains_match_witness:
  "filter_lines ascii_dv (str ''a 1.200\<newline>b 12\<newline>\<newline>c 350'') =
     join_with 10 (filter (contains_match ascii_dv number_pattern)
       (split_on 10 (str ''a 1.200\<newline>b 12\<newline>\<newline>c 350'')))
   \<and> filter_lines ascii_dv (str ''a 1.200\<newline>b 12\<newline>\<newline>c 350'') =
       str ''a 1.200\<newline>c 350''
   \<and> filter_lines ascii_dv (str ''a 1.200\<newline>c 350'') =
       str ''a 1.200\<newline>c 350''"
proof -
  have v: "filter_lines ascii_dv (str ''a 1.200\<newline>b 12\<newline>\<newline>c 350'') =
       str ''a 1.200\<newline>c 350''" by code_simp
  note t = filter_lines_contains_match[of ascii_dv "str ''a 1.200\<newline>b 12\<newline>\<newline>c 350''"]
  from t have idem: "filter_lines ascii_dv (str ''a 1.200\<newline>c 350'') =
       str ''a 1.200\<newline>c 350''" unfolding v by (rule conjunct2)
  from t v idem show ?thesis by blast
qed

section \<open>Properties of the coordinate extraction\<close>

lemma ebind_Inr_iff:
  "ebind m f = Inr r \<longleftrightarrow> (\<exists>v. m = Inr v \<and> f v = Inr r)"
  by (cases m) (auto simp: ebind_def)

lemma ebind_simps [simp]: "ebind (Inr v) f = f v" "ebind (Inl e) f = Inl e"
  by (simp_all add: ebind_def)

lemma upt_0_Suc_Cons: "[0..<Suc n] = 0 # map Suc [0..<n]"
  by (simp add: upt_conv_Cons map_Suc_upt del: upt_Suc)

lemma rep_class_all:
  assumes step: "\<And>s g. step (s, g) = (case s of [] \<Rightarrow> [] | x # xs \<Rightarrow> if P x then [(xs, g)] else [])"
  shows "length (takeWhile P s) \<le> n \<Longrightarrow>
    rep n step 0 (s, g) = map (\<lambda>j. (drop j s, g)) (rev [0..<Suc (length (takeWhile P s))])"
proof (induction n arbitrary: s)
  case 0
  then show ?case by simp
next
  case (Suc n)
  show ?case
  proof (cases s)
    case Nil
    then show ?thesis by (simp add: step)
  next
    case (Cons x xs)
    show ?thesis
    proof (cases "P x")
      case False
      with Cons show ?thesis by (simp add: step)
    next
      case True
      with Cons Suc.prems have "length (takeWhile P xs) \<le> n" by simp
      from Suc.IH[OF this] have ih: "rep n step 0 (xs, g) =
        map (\<lambda>j. (drop j xs, g)) (rev [0..<Suc (length (takeWhile P xs))])" .
      have "rep (Suc n) step 0 (s, g) = rep n step 0 (xs, g) @ [(s, g)]"
        using Cons True by (simp add: step)
      also have "\<dots> = map (\<lambda>j. (drop j s, g)) (rev (0 # map Suc [0..<Suc (length (takeWhile P xs))]))"
        unfolding ih using Cons by (simp add: rev_map comp_def del: upt_Suc)
      also have "0 # map Suc [0..<Suc (length (takeWhile P xs))] = [0..<Suc (Suc (length (takeWhile P xs)))]"
        by (rule upt_0_Suc_Cons[symmetric])
      also have "Suc (length (takeWhile P xs)) = length (takeWhile P s)"
        using Cons True by simp
      finally show ?thesis .
    qed
  qed
qed

lemma mtch_Dot_step:
  "mtch dv Dot (s, g) = (case s of [] \<Rightarrow> [] | x # xs \<Rightarrow> if x \<noteq> 10 then [(xs, g)] else [])"
  by (cases s) simp_all

lemma line_len_le: "line_len w \<le> length w"
  by (simp add: line_len_def length_takeWhile_le)

lemma mtch_group_dots:
  "mtch dv (Group 1 (Rep Dot 0 None)) (w, g) =
     map (\<lambda>j. (drop j w, g(1 \<mapsto> take j w))) (rev [0..<Suc (line_len w)])"
proof -
  have "line_len w \<le> 0 + length w" using line_len_le by simp
  from rep_class_all[of "mtch dv Dot" "\<lambda>c. c \<noteq> 10", OF mtch_Dot_step this[unfolded line_len_def]]
  have r: "rep (0 + length w) (mtch dv Dot) 0 (w, g) =
      map (\<lambda>j. (drop j w, g)) (rev [0..<Suc (line_len w)])" by (simp add: line_len_def)
  have "\<And>j. j \<in> set (rev [0..<Suc (line_len w)]) \<Longrightarrow> length w - length (drop j w) = j"
    using line_len_le[of w] by auto
  then have "map (\<lambda>j. (drop j w, g(1 \<mapsto> take (length w - length (drop j w)) w)))
        (rev [0..<Suc (line_len w)]) =
      map (\<lambda>j. (drop j w, g(1 \<mapsto> take j w))) (rev [0..<Suc (line_len w)])"
    by (intro map_cong) simp_all
  with r show ?thesis by (simp add: comp_def del: mtch.simps(3) upt_Suc)
qed

lemma mtch_Lit_drop:
  "mtch dv (Lit c) (drop j w, g) = (if j < length w \<and> w ! j = c then [(drop (Suc j) w, g)] else [])"
proof (cases "j < length w")
  case True
  then have "drop j w = w ! j # drop (Suc j) w" by (simp add: Cons_nth_drop_Suc)
  with True show ?thesis by simp
next
  case False
  then show ?thesis by simp
qed

lemma mtch_tail:
  "mtch dv (Seq (Group 1 (Rep Dot 0 None)) (Lit 44)) (w, g) =
     concat (map (\<lambda>j. if comma_at w j then [(drop (Suc j) w, g(1 \<mapsto> take j w))] else [])
       (rev [0..<Suc (line_len w)]))"
proof -
  have "mtch dv (Seq (Group 1 (Rep Dot 0 None)) (Lit 44)) (w, g) =
      concat (map (mtch dv (Lit 44)) (mtch dv (Group 1 (Rep Dot 0 None)) (w, g)))" by simp
  also have "\<dots> = concat (map (\<lambda>j. mtch dv (Lit 44) (drop j w, g(1 \<mapsto> take j w)))
      (rev [0..<Suc (line_len w)]))"
    unfolding mtch_group_dots by (simp add: comp_def del: mtch.simps upt_Suc)
  finally show ?thesis unfolding mtch_Lit_drop comma_at_def .
qed

lemma first_of_rev:
  "concat (map (\<lambda>j. if Q j then [f j] else []) (rev [0..<n])) = x # xs \<Longrightarrow>
   \<exists>j<n. Q j \<and> x = f j \<and> (\<forall>i. j < i \<and> i < n \<longrightarrow> \<not> Q i)"
proof (induction n)
  case 0
  then show ?case by simp
next
  case (Suc n)
  show ?case
  proof (cases "Q n")
    case False
    with Suc.prems have "concat (map (\<lambda>j. if Q j then [f j] else []) (rev [0..<n])) = x # xs"
      by simp
    from Suc.IH[OF this] obtain j where
      j: "j < n" "Q j" "x = f j" "\<forall>i. j < i \<and> i < n \<longrightarrow> \<not> Q i" by blast
    have "\<forall>i. j < i \<and> i < Suc n \<longrightarrow> \<not> Q i"
    proof (intro allI impI)
      fix i assume "j < i \<and> i < Suc n"
      then show "\<not> Q i" using j(4) False by (cases "i = n") auto
    qed
    with j show ?thesis by (intro exI[of _ j]) simp
  next
    case True
    with Suc.prems have "x = f n" by simp
    with True show ?thesis by (intro exI[of _ n]) auto
  qed
qed

lemma nonempty_of_rev:
  "\<lbrakk>j < n; Q j\<rbrakk> \<Longrightarrow> concat (map (\<lambda>j. if Q j then [f j] else []) (rev [0..<n])) \<noteq> []"
proof (induction n)
  case 0
  then show ?case by simp
next
  case (Suc n)
  then show ?case by (cases "j = n") auto
qed

lemma mtch_coords_shape:
  "mtch dv coords_pattern (s, g) \<noteq> [] \<Longrightarrow> \<exists>w. s = 47 # 64 # w"
  by (auto simp: coords_pattern_def split: list.splits if_splits)

lemma mtch_coords_tail:
  "mtch dv coords_pattern (47 # 64 # w, g) = mtch dv (Seq (Group 1 (Rep Dot 0 None)) (Lit 44)) (w, g)"
  by (simp add: coords_pattern_def)

lemma mtch_coords_list:
  "mtch dv coords_pattern (47 # 64 # w, g) =
     concat (map (\<lambda>j. if comma_at w j then [(drop (Suc j) w, g(1 \<mapsto> take j w))] else [])
       (rev [0..<Suc (line_len w)]))"
  by (rule trans[OF mtch_coords_tail mtch_tail])

lemma mtch_coords_first:
  assumes "mtch dv coords_pattern (s, Map.empty) = (rest, g) # ms"
  shows "\<exists>w j. s = 47 # 64 # w \<and> j \<le> line_len w \<and> comma_at w j \<and> g 1 = Some (take j w)
           \<and> (\<forall>i. j < i \<and> i \<le> line_len w \<longrightarrow> \<not> comma_at w i)"
proof -
  from assms mtch_coords_shape[of dv s Map.empty] obtain w where w: "s = 47 # 64 # w" by auto
  from mtch_coords_list[of dv w Map.empty, symmetric] assms[unfolded w]
  have "concat (map (\<lambda>j. if comma_at w j then [(drop (Suc j) w, [1 \<mapsto> take j w])] else [])
       (rev [0..<Suc (line_len w)])) = (rest, g) # ms"
    by (rule trans)
  from first_of_rev[of "comma_at w" "\<lambda>j. (drop (Suc j) w, [1 \<mapsto> take j w])"
      "Suc (line_len w)" "(rest, g)" ms, OF this]
  obtain j where
    j: "j < Suc (line_len w)" "comma_at w j" "(rest, g) = (drop (Suc j) w, [1 \<mapsto> take j w])"
       "\<forall>i. j < i \<and> i < Suc (line_len w) \<longrightarrow> \<not> comma_at w i" by blast
  from j(3) have "g 1 = Some (take j w)" by auto
  moreover from j(4) have "\<forall>i. j < i \<and> i \<le> line_len w \<longrightarrow> \<not> comma_at w i" by auto
  moreover from j(1) have "j \<le> line_len w" by simp
  ultimately show ?thesis using w j(2) by blast
qed

lemma mtch_coords_nonempty:
  "mtch dv coords_pattern (s, Map.empty) \<noteq> [] \<longleftrightarrow>
     (\<exists>w j. s = 47 # 64 # w \<and> j \<le> line_len w \<and> comma_at w j)"
proof
  assume ne: "mtch dv coords_pattern (s, Map.empty) \<noteq> []"
  then obtain rest g ms where "mtch dv coords_pattern (s, Map.empty) = (rest, g) # ms"
    by (cases "mtch dv coords_pattern (s, Map.empty)") auto
  from mtch_coords_first[OF this] show "\<exists>w j. s = 47 # 64 # w \<and> j \<le> line_len w \<and> comma_at w j"
    by blast
next
  assume "\<exists>w j. s = 47 # 64 # w \<and> j \<le> line_len w \<and> comma_at w j"
  then obtain w j where wj: "s = 47 # 64 # w" "j \<le> line_len w" "comma_at w j" by blast
  from wj have "j < Suc (line_len w)" by simp
  from nonempty_of_rev[of j "Suc (line_len w)" "comma_at w"
      "\<lambda>j. (drop (Suc j) w, [1 \<mapsto> take j w])", OF this wj(3)]
  show "mtch dv coords_pattern (s, Map.empty) \<noteq> []"
    unfolding wj(1) mtch_coords_list .
qed

lemma re_search_first:
  "re_search dv r x = Some g \<Longrightarrow>
   \<exists>pre t rest ms. x = pre @ t \<and> mtch dv r (t, Map.empty) = (rest, g) # ms
     \<and> (\<forall>q<length pre. mtch dv r (drop q x, Map.empty) = [])"
proof (induction x)
  case Nil
  then obtain m ms where "mtch dv r ([], Map.empty) = m # ms" "g = snd m"
    by (auto split: list.splits)
  then have "[] = [] @ [] \<and> mtch dv r ([], Map.empty) = (fst m, g) # ms
     \<and> (\<forall>q<length ([]::pystr). mtch dv r (drop q [], Map.empty) = [])" by simp
  then show ?case
    by (intro exI[of _ "[]::pystr"] exI[of _ "fst m"] exI[of _ ms])
next
  case (Cons c cs)
  show ?case
  proof (cases "mtch dv r (c # cs, Map.empty)")
    case Nil
    with Cons.prems have "re_search dv r cs = Some g" by simp
    from Cons.IH[OF this] obtain pre t rest ms where
      p: "cs = pre @ t" "mtch dv r (t, Map.empty) = (rest, g) # ms"
         "\<forall>q<length pre. mtch dv r (drop q cs, Map.empty) = []" by blast
    have "\<forall>q<length (c # pre). mtch dv r (drop q (c # cs), Map.empty) = []"
    proof (intro allI impI)
      fix q assume "q < length (c # pre)"
      then show "mtch dv r (drop q (c # cs), Map.empty) = []"
        using Nil p(3) by (cases q) auto
    qed
    with p have "c # cs = (c # pre) @ t \<and> mtch dv r (t, Map.empty) = (rest, g) # ms
      \<and> (\<forall>q<length (c # pre). mtch dv r (drop q (c # cs), Map.empty) = [])" by simp
    then show ?thesis
      by (intro exI[of _ "c # pre"] exI[of _ t] exI[of _ rest] exI[of _ ms])
  next
    case (Cons m ms)
    with Cons.prems have "g = snd m" by simp
    with Cons have "c # cs = [] @ (c # cs) \<and> mtch dv r (c # cs, Map.empty) = (fst m, g) # ms
      \<and> (\<forall>q<length ([]::pystr). mtch dv r (drop q (c # cs), Map.empty) = [])" by simp
    then show ?thesis
      by (intro exI[of _ "[]::pystr"] exI[of _ "c # cs"] exI[of _ "fst m"] exI[of _ ms])
  qed
qed

lemma re_search_at:
  "\<lbrakk>mtch dv r (t, Map.empty) = (rest, g) # ms;
    \<forall>q<length pre. mtch dv r (drop q (pre @ t), Map.empty) = []\<rbrakk>
   \<Longrightarrow> re_search dv r (pre @ t) = Some g"
proof (induction pre)
  case Nil
  then show ?case by (cases t) simp_all
next
  case (Cons c pre)
  from Cons.prems(2) have "mtch dv r (drop 0 ((c # pre) @ t), Map.empty) = []" by blast
  then have first: "mtch dv r (c # pre @ t, Map.empty) = []" by simp
  have "\<forall>q<length pre. mtch dv r (drop q (pre @ t), Map.empty) = []"
  proof (intro allI impI)
    fix q assume "q < length pre"
    then have "Suc q < length (c # pre)" by simp
    with Cons.prems(2) have "mtch dv r (drop (Suc q) ((c # pre) @ t), Map.empty) = []" by blast
    then show "mtch dv r (drop q (pre @ t), Map.empty) = []" by simp
  qed
  from Cons.IH[OF Cons.prems(1) this] first show ?case by simp
qed

lemma re_search_None:
  "re_search dv r x = None \<longleftrightarrow> (\<forall>p. mtch dv r (drop p x, Map.empty) = [])"
proof -
  have "re_search dv r x = None \<longleftrightarrow> \<not> (\<exists>u t. x = u @ t \<and> mtch dv r (t, Map.empty) \<noteq> [])"
    using re_search_suffix[of dv r x] by blast
  also have "\<dots> \<longleftrightarrow> (\<forall>p. mtch dv r (drop p x, Map.empty) = [])"
  proof
    assume a: "\<not> (\<exists>u t. x = u @ t \<and> mtch dv r (t, Map.empty) \<noteq> [])"
    show "\<forall>p. mtch dv r (drop p x, Map.empty) = []"
    proof
      fix p
      have "x = take p x @ drop p x" by simp
      with a show "mtch dv r (drop p x, Map.empty) = []" by blast
    qed
  next
    assume a: "\<forall>p. mtch dv r (drop p x, Map.empty) = []"
    show "\<not> (\<exists>u t. x = u @ t \<and> mtch dv r (t, Map.empty) \<noteq> [])"
    proof
      assume "\<exists>u t. x = u @ t \<and> mtch dv r (t, Map.empty) \<noteq> []"
      then obtain u t where "x = u @ t" "mtch dv r (t, Map.empty) \<noteq> []" by blast
      moreover from this a have "mtch dv r (drop (length u) x, Map.empty) = []" by blast
      ultimately show False by simp
    qed
  qed
  finally show ?thesis .
qed

lemma take_takeWhile: "j \<le> length (takeWhile P w) \<Longrightarrow> take j (takeWhile P w) = take j w"
  by (induction w arbitrary: j) (auto simp: take_Cons split: nat.splits if_splits)

lemma line_take: "j \<le> line_len w \<Longrightarrow> 10 \<notin> set (take j w)"
proof -
  assume j: "j \<le> line_len w"
  then have "take j w = take j (takeWhile (\<lambda>c. c \<noteq> 10) w)"
    by (simp add: line_len_def take_takeWhile)
  then have "set (take j w) \<subseteq> set (takeWhile (\<lambda>c. c \<noteq> 10) w)"
    using set_take_subset by metis
  then show ?thesis by (auto dest: set_takeWhileD)
qed

lemma line_len_append: "10 \<notin> set a \<Longrightarrow> length a \<le> line_len (a @ b)"
proof -
  assume "10 \<notin> set a"
  then have "takeWhile (\<lambda>c. c \<noteq> 10) (a @ b) = a @ takeWhile (\<lambda>c. c \<noteq> 10) b"
    by (intro takeWhile_append2) auto
  then show ?thesis by (simp add: line_len_def)
qed

lemma anchor_at_mtch: "anchor_at x p \<longleftrightarrow> mtch dv coords_pattern (drop p x, Map.empty) \<noteq> []"
proof -
  have "anchor_at x p \<longleftrightarrow> (\<exists>w j. drop p x = 47 # 64 # w \<and> j \<le> line_len w \<and> comma_at w j)"
  proof
    assume "anchor_at x p"
    then obtain a b where ab: "drop p x = 47 # 64 # a @ 44 # b" "10 \<notin> set a"
      by (auto simp: anchor_at_def)
    have "comma_at (a @ 44 # b) (length a)" by (simp add: comma_at_def)
    with ab line_len_append[OF ab(2), of "44 # b"]
    show "\<exists>w j. drop p x = 47 # 64 # w \<and> j \<le> line_len w \<and> comma_at w j" by blast
  next
    assume "\<exists>w j. drop p x = 47 # 64 # w \<and> j \<le> line_len w \<and> comma_at w j"
    then obtain w j where wj: "drop p x = 47 # 64 # w" "j \<le> line_len w" "comma_at w j" by blast
    from wj(3) have "w = take j w @ 44 # drop (Suc j) w"
      using id_take_nth_drop[of j w] by (simp add: comma_at_def)
    with wj(1) have "drop p x = 47 # 64 # take j w @ 44 # drop (Suc j) w" by simp
    with line_take[OF wj(2)] show "anchor_at x p" unfolding anchor_at_def by blast
  qed
  then show ?thesis by (simp only: mtch_coords_nonempty)
qed

lemma join_Cons_head: "join_with sep ((c # a) # ps) = c # join_with sep (a # ps)"
  by (cases ps) simp_all

lemma join_Nil_head: "join_with sep ([] # p # ps) = sep # join_with sep (p # ps)"
  by simp

lemma join_split: "join_with sep (split_on sep s) = s"
proof (induction s)
  case Nil
  then show ?case by simp
next
  case (Cons c cs)
  then show ?case
    by (cases "split_on sep cs"; cases "c = sep") (auto simp: split_on_nonempty join_Cons_head)
qed

lemma join_two: "join_with sep (t0 # t1 # ts) = t0 @ sep # t1 @ (if ts = [] then [] else sep # join_with sep ts)"
  by (cases ts) simp_all

lemma no_anchor_iff: "(\<forall>p. \<not> anchor_at x p) \<longleftrightarrow> re_search dv coords_pattern x = None"
  unfolding re_search_None anchor_at_mtch[of x _ dv] by simp

lemma item_simps [simp]:
  "item (a # xs) 0 = Inr a" "item (a # b # xs) (Suc 0) = Inr b" "item [] i = Inl IndexError"
  "item [a] (Suc 0) = Inl IndexError"
  by (simp_all add: item_def)

lemma take_append_ge: "length a \<le> j \<Longrightarrow> take j (a @ b) = a @ take (j - length a) b"
  by simp

lemma split_two_tokens:
  assumes "44 \<notin> set t0" "44 \<notin> set t1"
  shows "\<exists>ts. split_on 44 ((t0 @ 44 # t1) @ take n (44 # rest)) = t0 # t1 # ts"
proof (cases n)
  case 0
  with assms show ?thesis by (simp add: split_on_append split_on_plain)
next
  case (Suc m)
  then have "(t0 @ 44 # t1) @ take n (44 # rest) = t0 @ 44 # (t1 @ 44 # take m rest)" by simp
  with assms show ?thesis by (simp add: split_on_append)
qed

lemma located_imp:
  assumes "located py_float x lat lon"
  shows "row_coordinates dv py_float x = Inr (lat, lon)"
proof -
  from assms obtain pre t0 t1 rest where
    x: "x = pre @ 47 # 64 # t0 @ 44 # t1 @ 44 # rest"
    and t0: "44 \<notin> set t0" "10 \<notin> set t0" and t1: "44 \<notin> set t1" "10 \<notin> set t1"
    and first: "\<forall>p<length pre. \<not> anchor_at x p"
    and pf: "py_float t0 = Inr lat" "py_float t1 = Inr lon"
    unfolding located_def by blast
  define w where "w = t0 @ 44 # t1 @ 44 # rest"
  define t where "t = 47 # 64 # w"
  have xt: "x = pre @ t" by (simp add: x t_def w_def)
  have "drop (length pre) x = 47 # 64 # t0 @ 44 # (t1 @ 44 # rest)" by (simp add: x)
  with t0(2) have "anchor_at x (length pre)" unfolding anchor_at_def by blast
  with anchor_at_mtch[of x "length pre" dv]
  have "mtch dv coords_pattern (drop (length pre) x, Map.empty) \<noteq> []" by (rule iffD1)
  then have "mtch dv coords_pattern (t, Map.empty) \<noteq> []" by (simp add: xt)
  then obtain r g ms where m: "mtch dv coords_pattern (t, Map.empty) = (r, g) # ms"
    by (cases "mtch dv coords_pattern (t, Map.empty)") auto
  have "\<forall>q<length pre. mtch dv coords_pattern (drop q x, Map.empty) = []"
  proof (intro allI impI)
    fix q assume "q < length pre"
    with first have "\<not> anchor_at x q" by blast
    with anchor_at_mtch[of x q dv] show "mtch dv coords_pattern (drop q x, Map.empty) = []"
      by blast
  qed
  then have "\<forall>q<length pre. mtch dv coords_pattern (drop q (pre @ t), Map.empty) = []"
    by (simp only: xt)
  from re_search_at[OF m this] have search: "re_search dv coords_pattern x = Some g"
    by (simp add: xt)
  from mtch_coords_first[OF m] obtain j where
    j: "j \<le> line_len w" "comma_at w j" "g 1 = Some (take j w)"
       "\<forall>i. j < i \<and> i \<le> line_len w \<longrightarrow> \<not> comma_at w i"
    by (auto simp: t_def)
  let ?a = "t0 @ 44 # t1"
  have wa: "w = ?a @ 44 # rest" by (simp add: w_def)
  have "10 \<notin> set ?a" using t0 t1 by simp
  from line_len_append[OF this, of "44 # rest"] have a_line: "length ?a \<le> line_len w"
    by (simp add: wa)
  have a_comma: "comma_at w (length ?a)" unfolding wa comma_at_def by (simp add: nth_append)
  have "length ?a \<le> j"
  proof (rule ccontr)
    assume "\<not> length ?a \<le> j"
    then have "j < length ?a \<and> length ?a \<le> line_len w" using a_line by simp
    with j(4) a_comma show False by blast
  qed
  then have "take j (?a @ 44 # rest) = ?a @ take (j - length ?a) (44 # rest)"
    by (rule take_append_ge)
  then have "take j w = ?a @ take (j - length ?a) (44 # rest)" by (simp only: wa)
  with split_two_tokens[OF t0(1) t1(1), of "j - length ?a" rest] obtain ts where
    "split_on 44 (take j w) = t0 # t1 # ts" by auto
  with search j(3) pf show ?thesis
    by (simp add: row_coordinates_def real_coordinates_of_def)
qed

lemma imp_located:
  assumes "row_coordinates dv py_float x = Inr (lat, lon)"
  shows "located py_float x lat lon"
proof -
  from assms obtain sub t0 t1 where
    sub: "real_coordinates_of dv x = Inr sub"
    and i0: "item sub 0 = Inr t0" and f0: "py_float t0 = Inr lat"
    and i1: "item sub 1 = Inr t1" and f1: "py_float t1 = Inr lon"
    unfolding row_coordinates_def ebind_Inr_iff by auto
  from sub obtain g g1 where
    search: "re_search dv coords_pattern x = Some g" and g1: "g 1 = Some g1"
    and split: "sub = split_on 44 g1"
    by (auto simp: real_coordinates_of_def split: option.splits)
  from i0 i1 obtain ts where ts: "sub = t0 # t1 # ts"
    by (cases sub; cases "tl sub") (auto simp: item_def split: if_splits)
  from re_search_first[OF search] obtain pre t rest ms where
    pre: "x = pre @ t" "mtch dv coords_pattern (t, Map.empty) = (rest, g) # ms"
         "\<forall>q<length pre. mtch dv coords_pattern (drop q x, Map.empty) = []" by blast
  from mtch_coords_first[OF pre(2)] g1 obtain w j where
    w: "t = 47 # 64 # w" "j \<le> line_len w" "comma_at w j" "g1 = take j w" by auto
  have "g1 = join_with 44 sub" unfolding split by (rule join_split[symmetric])
  then have g1_eq: "g1 = t0 @ 44 # t1 @ (if ts = [] then [] else 44 # join_with 44 ts)"
    unfolding ts join_two .
  from w(3) have "w = take j w @ 44 # drop (Suc j) w"
    using id_take_nth_drop[of j w] by (simp add: comma_at_def)
  with w(4) have "w = g1 @ 44 # drop (Suc j) w" by simp
  with g1_eq have "\<exists>rest'. w = t0 @ 44 # t1 @ 44 # rest'" by (cases "ts = []") auto
  then obtain rest' where w_eq: "w = t0 @ 44 # t1 @ 44 # rest'" by blast
  have "t0 \<in> set (split_on 44 g1)" "t1 \<in> set (split_on 44 g1)"
    using ts split by (metis list.set_intros(1), metis list.set_intros(1,2))
  then have no_comma: "44 \<notin> set t0" "44 \<notin> set t1" by (auto dest: split_on_no_sep)
  from line_take[OF w(2)] w(4) have "10 \<notin> set g1" by simp
  with g1_eq have no_nl: "10 \<notin> set t0" "10 \<notin> set t1" by auto
  have "\<forall>p<length pre. \<not> anchor_at x p"
  proof (intro allI impI)
    fix p assume "p < length pre"
    with pre(3) have "mtch dv coords_pattern (drop p x, Map.empty) = []" by blast
    with anchor_at_mtch[of x p dv] show "\<not> anchor_at x p" by blast
  qed
  with pre(1) w(1) w_eq no_comma no_nl f0 f1 show ?thesis
    unfolding located_def by blast
qed

text \<open>
  Claim C9, as amended. For a row of the misleading-locations table, the extraction of
  coordinates from \<^verbatim>\<open>maps_herf\<close> succeeds exactly when the text has a \<^verbatim>\<open>/@\<close> that a comma
  follows on the same line, the first such \<^verbatim>\<open>/@\<close> is followed on its line by two
  comma-terminated tokens, and \<^verbatim>\<open>float\<close> accepts both; latitude and longitude are then
  the \<^verbatim>\<open>float\<close> values of the first and of the second token. When no \<^verbatim>\<open>/@\<close> is followed
  by a comma on its line, the extraction raises \<^verbatim>\<open>AttributeError\<close>.
\<close>

theorem row_coordinates_located:
  "(row_coordinates dv py_float x = Inr (lat, lon) \<longleftrightarrow> located py_float x lat lon)
   \<and> ((\<forall>p. \<not> anchor_at x p) \<longrightarrow> row_coordinates dv py_float x = Inl AttributeError)"
proof -
  have "(\<forall>p. \<not> anchor_at x p) \<longrightarrow> row_coordinates dv py_float x = Inl AttributeError"
    by (simp add: no_anchor_iff[of x dv] row_coordinates_def real_coordinates_of_def)
  with located_imp[of py_float x lat lon dv] imp_located[of dv py_float x lat lon]
  show ?thesis by blast
qed


theorem row_coordinates_located_witness:
  "row_coordinates ascii_dv decimal_float (str ''m/@52.2,21.0,17z'') = Inr ((522, 1), (210, 1))
   \<and> located decimal_float (str ''m/@52.2,21.0,17z'') (522, 1) (210, 1)
   \<and> (\<forall>p. \<not> anchor_at (str ''m/52.2,21.0'') p)
   \<and> row_coordinates ascii_dv decimal_float (str ''m/52.2,21.0'') = Inl AttributeError"
proof -
  have a: "row_coordinates ascii_dv decimal_float (str ''m/@52.2,21.0,17z'') =
      Inr ((522, 1), (210, 1))" by code_simp
  have "re_search ascii_dv coords_pattern (str ''m/52.2,21.0'') = None" by code_simp
  then have b: "\<forall>p. \<not> anchor_at (str ''m/52.2,21.0'') p"
    by (simp only: no_anchor_iff[of _ ascii_dv])
  note t1 = row_coordinates_located[of ascii_dv decimal_float "str ''m/@52.2,21.0,17z''"
      "(522, 1)" "(210, 1)"]
  note t2 = row_coordinates_located[of ascii_dv decimal_float "str ''m/52.2,21.0''"
      "(522, 1)" "(210, 1)"]
  from a t1 have c: "located decimal_float (str ''m/@52.2,21.0,17z'') (522, 1) (210, 1)" by blast
  from b t2 have d: "row_coordinates ascii_dv decimal_float (str ''m/52.2,21.0'') =
      Inl AttributeError" by blast
  from a b c d show ?thesis by blast
qed

text \<open>
  Claim C9 as it was stated fails: in \<^verbatim>\<open>/@52.2,21.0\<close> a comma follows \<^verbatim>\<open>/@\<close>, and the
  extraction raises \<^verbatim>\<open>IndexError\<close>, since \<^verbatim>\<open>sublist\<close> has one element only.
\<close>

theorem row_coordinates_one_comma_counterexample:
  "str ''/@52.2,21.0'' = [] @ str ''/@'' @ str ''52.2'' @ 44 # str ''21.0''
   \<and> row_coordinates ascii_dv decimal_float (str ''/@52.2,21.0'') = Inl IndexError"
proof -
  have a: "str ''/@52.2,21.0'' = [] @ str ''/@'' @ str ''52.2'' @ 44 # str ''21.0''"
    by (simp add: str_def)
  have b: "row_coordinates ascii_dv decimal_float (str ''/@52.2,21.0'') = Inl IndexError"
    by code_simp
  from a b show ?thesis by (rule conjI)
qed

section \<open>Properties of the table operations\<close>

lemma ebind_InrE:
  assumes "ebind m f = Inr r"
  obtains v where "m = Inr v" "f v = Inr r"
  using assms by (auto simp: ebind_Inr_iff)

lemma emap_Cons_Inr:
  "emap f (x # xs) = Inr ys \<longleftrightarrow> (\<exists>y zs. f x = Inr y \<and> emap f xs = Inr zs \<and> ys = y # zs)"
  by (cases "f x"; cases "emap f xs") auto

lemma emap_Inr_iff: "emap f xs = Inr ys \<longleftrightarrow> list_all2 (\<lambda>x y. f x = Inr y) xs ys"
proof (induction xs arbitrary: ys)
  case Nil
  then show ?case by auto
next
  case (Cons x xs)
  have "emap f (x # xs) = Inr ys \<longleftrightarrow>
      (\<exists>y zs. f x = Inr y \<and> list_all2 (\<lambda>x y. f x = Inr y) xs zs \<and> ys = y # zs)"
    unfolding emap_Cons_Inr Cons.IH ..
  also have "\<dots> \<longleftrightarrow> list_all2 (\<lambda>x y. f x = Inr y) (x # xs) ys"
    unfolding list_all2_Cons1 by blast
  finally show ?case .
qed

lemma emap_length: "emap f xs = Inr ys \<Longrightarrow> length ys = length xs"
  by (auto simp: emap_Inr_iff dest: list_all2_lengthD)

lemma emap_nth: "\<lbrakk>emap f xs = Inr ys; i < length xs\<rbrakk> \<Longrightarrow> f (xs ! i) = Inr (ys ! i)"
  by (auto simp: emap_Inr_iff dest: list_all2_nthD)

lemma get_column_Inr:
  "get_column df c = Inr col \<longleftrightarrow> c \<in> set (columns df) \<and> col = map (\<lambda>r. r c) (rows df)"
  by (auto simp: get_column_def)

lemma get_attr_Inr:
  "get_attr df c = Inr col \<longleftrightarrow> c \<in> set (columns df) \<and> col = map (\<lambda>r. r c) (rows df)"
  by (auto simp: get_attr_def)

lemma set_column_Inr:
  "set_column df c vs = Inr out \<longleftrightarrow>
     length vs = length (rows df)
     \<and> out = df\<lparr>columns := (if c \<in> set (columns df) then columns df else columns df @ [c]),
                 rows := map (\<lambda>(r, v). r(c := v)) (zip (rows df) vs)\<rparr>"
  by (auto simp: set_column_def)

lemma set_column_rows:
  assumes "set_column df c vs = Inr out"
  shows "length (rows out) = length (rows df)"
    and "i < length (rows df) \<Longrightarrow> rows out ! i = (rows df ! i)(c := vs ! i)"
    and "set (columns df) \<subseteq> set (columns out)" and "c \<in> set (columns out)"
    and "c \<in> set (columns df) \<Longrightarrow> columns out = columns df"
  using assms by (auto simp: set_column_Inr)

lemma select_rows_filter:
  "list_all2 (\<lambda>x b. b \<longleftrightarrow> P x) xs bs \<Longrightarrow> map fst (filter snd (zip xs bs)) = filter P xs"
  by (induction xs bs rule: list_all2_induct) auto

lemma select_rows_map [simp]:
  "select_rows df (map P col) = df\<lparr>rows := map fst (filter snd (zip (rows df) (map P col)))\<rparr>"
  by (simp add: select_rows_def)

lemma select_rows_column:
  "rows (select_rows df (map P (map (\<lambda>r. r c) (rows df)))) = filter (\<lambda>r. P (r c)) (rows df)"
proof -
  have "list_all2 (\<lambda>x b. b \<longleftrightarrow> P (x c)) (rows df) (map P (map (\<lambda>r. r c) (rows df)))"
    by (simp add: list_all2_conv_all_nth)
  from select_rows_filter[OF this] show ?thesis by (simp add: select_rows_def)
qed

text \<open>
  Claim C5. The table the preparation notebook saves has none of the columns \<^verbatim>\<open>title\<close>,
  \<^verbatim>\<open>adv_description\<close>, \<^verbatim>\<open>link\<close>, \<^verbatim>\<open>last_update\<close> and \<^verbatim>\<open>location\<close>; every other column of
  the table before the drop is kept, in its place, and with the same value in every row.
\<close>

theorem modeling_data_drops:
  assumes "modeling_data df = Inr out"
  shows "''title'' \<notin> set (columns out) \<and> ''adv_description'' \<notin> set (columns out)
     \<and> ''link'' \<notin> set (columns out) \<and> ''last_update'' \<notin> set (columns out)
     \<and> ''location'' \<notin> set (columns out)
     \<and> columns out = filter (\<lambda>c. c \<notin> set columns_to_drop) (columns df)
     \<and> (\<forall>c. c \<in> set (columns df) \<and> c \<notin> set columns_to_drop \<longrightarrow> c \<in> set (columns out))
     \<and> length (rows out) = length (rows df)
     \<and> (\<forall>i c. i < length (rows df) \<longrightarrow> (rows out ! i) c = (rows df ! i) c)
     \<and> set columns_to_drop \<subseteq> set (columns df)"
proof -
  from assms have out: "out = df\<lparr>columns := filter (\<lambda>c. c \<notin> set columns_to_drop) (columns df)\<rparr>"
    by (auto simp: modeling_data_def drop_columns_def split: if_splits)
  then have cols: "columns out = filter (\<lambda>c. c \<notin> set columns_to_drop) (columns df)"
    and rws: "rows out = rows df" by simp_all
  from cols have "\<forall>c\<in>set columns_to_drop. c \<notin> set (columns out)" by simp
  then have "''title'' \<notin> set (columns out)" "''adv_description'' \<notin> set (columns out)"
    "''link'' \<notin> set (columns out)" "''last_update'' \<notin> set (columns out)"
    "''location'' \<notin> set (columns out)"
    by (simp_all add: columns_to_drop_def)
  moreover from cols have
    "\<forall>c. c \<in> set (columns df) \<and> c \<notin> set columns_to_drop \<longrightarrow> c \<in> set (columns out)" by simp
  moreover from assms have "set columns_to_drop \<subseteq> set (columns df)"
    by (auto simp: modeling_data_def drop_columns_def split: if_splits)
  ultimately show ?thesis using cols rws by simp
qed

theorem modeling_data_drops_witness:
  "modeling_data
     \<lparr>columns = [''title'', ''adv_description'', ''rent'', ''link'', ''last_update'', ''location'', ''area''],
      rows = [\<lambda>c. if c = ''rent'' then Integer 2500 else Str (str c)]\<rparr>
   = Inr \<lparr>columns = [''rent'', ''area''],
          rows = [\<lambda>c. if c = ''rent'' then Integer 2500 else (Str (str c) :: unit cell)]\<rparr>
   \<and> ''link'' \<notin> set [''rent'', ''area'']"
proof -
  let ?df = "\<lparr>columns = [''title'', ''adv_description'', ''rent'', ''link'', ''last_update'', ''location'', ''area''],
      rows = [\<lambda>c. if c = ''rent'' then Integer 2500 else (Str (str c) :: unit cell)]\<rparr>"
  let ?out = "\<lparr>columns = [''rent'', ''area''],
      rows = [\<lambda>c. if c = ''rent'' then Integer 2500 else (Str (str c) :: unit cell)]\<rparr>"
  have e: "modeling_data ?df = Inr ?out"
    by (simp add: modeling_data_def drop_columns_def columns_to_drop_def)
  from modeling_data_drops[OF e] have "''link'' \<notin> set (columns ?out)" by blast
  with e show ?thesis by simp
qed

section \<open>The coordinate extraction over the table\<close>

text \<open>
  The three columns that the cell of the misleading locations computes, \<^verbatim>\<open>real_coordinates\<close>,
  \<^verbatim>\<open>latitude\<close> and \<^verbatim>\<open>longitude\<close>, exist exactly when the extraction of every row succeeds,
  and then hold the coordinates of each row.
\<close>

lemma row_coordinates_Inr:
  "row_coordinates dv pf x = Inr c \<longleftrightarrow>
     (\<exists>s. real_coordinates_of dv x = Inr s \<and> ebind (item s 0) pf = Inr (fst c)
          \<and> ebind (item s 1) pf = Inr (snd c))"
  by (cases c) (auto simp: row_coordinates_def ebind_Inr_iff)

lemma coordinates_by_row:
  "ebind (real_coordinates dv (map Str xs :: 'a cell list)) (\<lambda>rc.
   ebind (float_items pf 0 rc) (\<lambda>latitude.
   ebind (float_items pf 1 rc) (\<lambda>longitude.
   Inr (zip latitude longitude)))) = Inr cs
   \<longleftrightarrow> emap (row_coordinates dv pf) xs = Inr cs"
proof
  assume "ebind (real_coordinates dv (map Str xs :: 'a cell list)) (\<lambda>rc.
   ebind (float_items pf 0 rc) (\<lambda>latitude.
   ebind (float_items pf 1 rc) (\<lambda>longitude.
   Inr (zip latitude longitude)))) = Inr cs"
  then obtain rc lat lon where
    rc: "real_coordinates dv (map Str xs :: 'a cell list) = Inr rc"
    and lat: "float_items pf 0 rc = Inr lat"
    and lon: "float_items pf 1 rc = Inr lon"
    and cs': "zip lat lon = cs"
    unfolding ebind_Inr_iff sum.inject by blast
  note cs = cs'[symmetric]
  note rc = rc[unfolded real_coordinates_def]
  note lat = lat[unfolded float_items_def]
  note lon = lon[unfolded float_items_def]
  from emap_length[OF rc] emap_length[OF lat] emap_length[OF lon]
  have len: "length rc = length xs" "length lat = length xs" "length lon = length xs" by simp_all
  show "emap (row_coordinates dv pf) xs = Inr cs"
    unfolding emap_Inr_iff
  proof (rule list_all2_all_nthI)
    show "length xs = length cs" using cs len by simp
  next
    fix i assume i: "i < length xs"
    from emap_nth[OF rc, of i] i have a: "real_coordinates_of dv (xs ! i) = Inr (rc ! i)" by simp
    from emap_nth[OF lat, of i] i len have b: "ebind (item (rc ! i) 0) pf = Inr (lat ! i)" by simp
    from emap_nth[OF lon, of i] i len have c: "ebind (item (rc ! i) 1) pf = Inr (lon ! i)" by simp
    from a b c cs i len show "row_coordinates dv pf (xs ! i) = Inr (cs ! i)"
      unfolding row_coordinates_Inr by auto
  qed
next
  assume r: "emap (row_coordinates dv pf) xs = Inr cs"
  from emap_length[OF r] have len: "length cs = length xs" .
  have each: "\<exists>s. real_coordinates_of dv (xs ! i) = Inr s \<and> ebind (item s 0) pf = Inr (fst (cs ! i))
          \<and> ebind (item s 1) pf = Inr (snd (cs ! i))" if "i < length xs" for i
    using emap_nth[OF r that] unfolding row_coordinates_Inr .
  define rc where "rc = map (\<lambda>x. projr (real_coordinates_of dv x)) xs"
  have rc_nth: "real_coordinates_of dv (xs ! i) = Inr (rc ! i)" if "i < length xs" for i
  proof -
    from each[OF that] obtain s where s: "real_coordinates_of dv (xs ! i) = Inr s" by (elim exE conjE)
    from that have "rc ! i = projr (real_coordinates_of dv (xs ! i))" by (simp add: rc_def)
    with s show ?thesis by simp
  qed
  have e1: "real_coordinates dv (map Str xs :: 'a cell list) = Inr rc"
    unfolding real_coordinates_def emap_Inr_iff
  proof (rule list_all2_all_nthI)
    show "length (map Str xs :: 'a cell list) = length rc" by (simp add: rc_def)
  next
    fix i assume "i < length (map Str xs :: 'a cell list)"
    then have i: "i < length xs" by simp
    with rc_nth[OF i] show "(case (map Str xs :: 'a cell list) ! i of
        Str s \<Rightarrow> real_coordinates_of dv s | _ \<Rightarrow> Inl TypeError) = Inr (rc ! i)" by simp
  qed
  have e2: "float_items pf 0 rc = Inr (map fst cs)"
    unfolding float_items_def emap_Inr_iff
  proof (rule list_all2_all_nthI)
    show "length rc = length (map fst cs)" by (simp add: rc_def len)
  next
    fix i assume "i < length rc"
    then have i: "i < length xs" by (simp add: rc_def)
    from each[OF i] obtain s where s: "real_coordinates_of dv (xs ! i) = Inr s"
      "ebind (item s 0) pf = Inr (fst (cs ! i))" by (elim exE conjE)
    with rc_nth[OF i] have "s = rc ! i" by simp
    with s(2) i len show "ebind (item (rc ! i) 0) pf = Inr (map fst cs ! i)" by simp
  qed
  have e3: "float_items pf 1 rc = Inr (map snd cs)"
    unfolding float_items_def emap_Inr_iff
  proof (rule list_all2_all_nthI)
    show "length rc = length (map snd cs)" by (simp add: rc_def len)
  next
    fix i assume "i < length rc"
    then have i: "i < length xs" by (simp add: rc_def)
    from each[OF i] obtain s where s: "real_coordinates_of dv (xs ! i) = Inr s"
      "ebind (item s 1) pf = Inr (snd (cs ! i))" by (elim exE conjE)
    with rc_nth[OF i] have "s = rc ! i" by simp
    with s(2) i len show "ebind (item (rc ! i) 1) pf = Inr (map snd cs ! i)" by simp
  qed
  from e1 e2 e3 show "ebind (real_coordinates dv (map Str xs :: 'a cell list)) (\<lambda>rc.
   ebind (float_items pf 0 rc) (\<lambda>latitude.
   ebind (float_items pf 1 rc) (\<lambda>longitude.
   Inr (zip latitude longitude)))) = Inr cs"
    by (simp add: zip_map_fst_snd)
qed

section \<open>Properties of the hidden-fee step\<close>

lemma zip_map_same: "zip (map f xs) (map g xs) = map (\<lambda>x. (f x, g x)) xs"
  by (induction xs) simp_all



lemma map_of_rows_None:
  assumes "k \<notin> key ` set rws"
  shows "map_of (map (\<lambda>r. (key r, val r)) rws) k = None"
  using assms by (induction rws) auto









section \<open>Properties of the historical data\<close>

lemma convert_columns_rows:
  assumes "convert_columns gn st cs df = Inr out" "distinct cs"
  shows "set cs \<subseteq> set (columns df) \<and> columns out = columns df
     \<and> length (rows out) = length (rows df)
     \<and> (\<forall>i<length (rows df).
          (\<forall>c\<in>set cs. gn (st ((rows df ! i) c)) = Inr ((rows out ! i) c))
          \<and> (\<forall>c. c \<notin> set cs \<longrightarrow> (rows out ! i) c = (rows df ! i) c))"
  using assms
proof (induction cs arbitrary: df)
  case Nil
  then show ?case by simp
next
  case (Cons c cs)
  from Cons.prems(1) obtain vs df1 where
    c: "c \<in> set (columns df)"
    and vs: "emap (\<lambda>x. gn (st x)) (map (\<lambda>r. r c) (rows df)) = Inr vs"
    and df1: "set_column df c vs = Inr df1"
    and rest: "convert_columns gn st cs df1 = Inr out"
    by (auto simp: ebind_Inr_iff get_column_Inr)
  from Cons.prems(2) have d: "distinct cs" "c \<notin> set cs" by simp_all
  note ih = Cons.IH[OF rest d(1)]
  note s = set_column_rows[OF df1]
  from s(5)[OF c] have cols1: "columns df1 = columns df" .
  have "\<forall>i<length (rows df).
          (\<forall>c'\<in>set (c # cs). gn (st ((rows df ! i) c')) = Inr ((rows out ! i) c'))
          \<and> (\<forall>c'. c' \<notin> set (c # cs) \<longrightarrow> (rows out ! i) c' = (rows df ! i) c')"
  proof (intro allI impI)
    fix i assume i: "i < length (rows df)"
    then have i1: "i < length (rows df1)" using s(1) by simp
    from emap_nth[OF vs] i have v: "gn (st ((rows df ! i) c)) = Inr (vs ! i)" by simp
    from s(2)[OF i] have r1: "rows df1 ! i = (rows df ! i)(c := vs ! i)" .
    from ih i1 have
      a: "\<forall>c'\<in>set cs. gn (st ((rows df1 ! i) c')) = Inr ((rows out ! i) c')"
      and b: "\<forall>c'. c' \<notin> set cs \<longrightarrow> (rows out ! i) c' = (rows df1 ! i) c'" by blast+
    from b d(2) r1 have "(rows out ! i) c = vs ! i" by simp
    with v have "gn (st ((rows df ! i) c)) = Inr ((rows out ! i) c)" by simp
    moreover have "\<forall>c'\<in>set cs. gn (st ((rows df ! i) c')) = Inr ((rows out ! i) c')"
    proof
      fix c' assume c': "c' \<in> set cs"
      with d(2) have "c' \<noteq> c" by blast
      with r1 have e: "(rows df1 ! i) c' = (rows df ! i) c'" by simp
      from a c' have "gn (st ((rows df1 ! i) c')) = Inr ((rows out ! i) c')" by blast
      then show "gn (st ((rows df ! i) c')) = Inr ((rows out ! i) c')" unfolding e .
    qed
    moreover have "\<forall>c'. c' \<notin> set (c # cs) \<longrightarrow> (rows out ! i) c' = (rows df ! i) c'"
      using b r1 by simp
    ultimately show "(\<forall>c'\<in>set (c # cs). gn (st ((rows df ! i) c')) = Inr ((rows out ! i) c'))
          \<and> (\<forall>c'. c' \<notin> set (c # cs) \<longrightarrow> (rows out ! i) c' = (rows df ! i) c')" by simp
  qed
  moreover from ih c cols1 s(1) have "set (c # cs) \<subseteq> set (columns df)"
    "columns out = columns df" "length (rows out) = length (rows df)" by auto
  ultimately show ?case by blast
qed

lemma rent_with_fees_Inr:
  assumes "''rent_price'' \<in> set cols" "''additional_fees'' \<in> set cols"
  shows "rent_with_fees add cols r = Inr v \<longleftrightarrow>
     (if r ''additional_fees'' \<noteq> NaN then add (r ''rent_price'') (r ''additional_fees'') = Inr v
      else v = r ''rent_price'')"
  using assms by (auto simp: rent_with_fees_def row_item_def)

lemma price_per_square_rows:
  assumes "price_per_square gn st add dv df = Inr out"
  shows "length (rows out) = length (rows df)"
    and "\<And>i. i < length (rows df) \<Longrightarrow>
      \<exists>rent fees area.
        gn (st ((rows df ! i) ''rent_price'')) = Inr rent
        \<and> gn (st ((rows df ! i) ''additional_fees'')) = Inr fees
        \<and> gn (st ((rows df ! i) ''area'')) = Inr area
        \<and> (fees \<noteq> NaN \<longrightarrow> add rent fees = Inr ((rows out ! i) ''rent_price''))
        \<and> (fees = NaN \<longrightarrow> (rows out ! i) ''rent_price'' = rent)
        \<and> dv ((rows out ! i) ''rent_price'') area = Inr ((rows out ! i) ''price_per_square'')
        \<and> (\<forall>c. c \<notin> {''rent_price'', ''additional_fees'', ''area'', ''price_per_square''} \<longrightarrow>
              (rows out ! i) c = (rows df ! i) c)"
proof -
  let ?cs = "[''rent_price'', ''additional_fees'', ''area'']"
  from assms obtain conv rent df2 pps where
    conv: "convert_columns gn st ?cs df = Inr conv"
    and rent: "emap (rent_with_fees add (columns conv)) (rows conv) = Inr rent"
    and df2: "set_column conv ''rent_price'' rent = Inr df2"
    and a2: "''rent_price'' \<in> set (columns df2)" "''area'' \<in> set (columns df2)"
    and pps: "emap (\<lambda>(p, a). dv p a)
        (zip (map (\<lambda>r. r ''rent_price'') (rows df2)) (map (\<lambda>r. r ''area'') (rows df2))) = Inr pps"
    and out: "set_column df2 ''price_per_square'' pps = Inr out"
    unfolding price_per_square_def ebind_Inr_iff get_attr_Inr by blast
  have dist: "distinct ?cs" by simp
  note c = convert_columns_rows[OF conv dist]
  note s2 = set_column_rows[OF df2]
  note s3 = set_column_rows[OF out]
  from c have cols: "''rent_price'' \<in> set (columns conv)" "''additional_fees'' \<in> set (columns conv)"
    by auto
  from c s2(1) s3(1) show len: "length (rows out) = length (rows df)" by simp
  fix i assume i: "i < length (rows df)"
  with c s2(1) have ic: "i < length (rows conv)" and i2: "i < length (rows df2)" by simp_all
  let ?r = "rows df ! i" and ?rc = "rows conv ! i"
  from c i have g: "gn (st (?r ''rent_price'')) = Inr (?rc ''rent_price'')"
    "gn (st (?r ''additional_fees'')) = Inr (?rc ''additional_fees'')"
    "gn (st (?r ''area'')) = Inr (?rc ''area'')"
    and other: "\<forall>c. c \<notin> set ?cs \<longrightarrow> ?rc c = ?r c" by simp_all
  from emap_nth[OF rent ic] have "rent_with_fees add (columns conv) ?rc = Inr (rent ! i)" .
  then have rw: "if ?rc ''additional_fees'' \<noteq> NaN
      then add (?rc ''rent_price'') (?rc ''additional_fees'') = Inr (rent ! i)
      else rent ! i = ?rc ''rent_price''"
    by (simp only: rent_with_fees_Inr[OF cols])
  from s2(2)[OF ic] have r2: "rows df2 ! i = ?rc(''rent_price'' := rent ! i)" .
  from s3(2)[OF i2] have r3: "rows out ! i = (rows df2 ! i)(''price_per_square'' := pps ! i)" .
  have "i < length (zip (map (\<lambda>r. r ''rent_price'') (rows df2)) (map (\<lambda>r. r ''area'') (rows df2)))"
    using i2 by simp
  from emap_nth[OF pps this] i2
  have d: "dv ((rows df2 ! i) ''rent_price'') ((rows df2 ! i) ''area'') = Inr (pps ! i)" by simp
  from r2 r3 have o: "(rows out ! i) ''rent_price'' = rent ! i"
    "(rows out ! i) ''price_per_square'' = pps ! i"
    "(rows df2 ! i) ''rent_price'' = rent ! i" "(rows df2 ! i) ''area'' = ?rc ''area''"
    by simp_all
  have "\<forall>c. c \<notin> {''rent_price'', ''additional_fees'', ''area'', ''price_per_square''} \<longrightarrow>
      (rows out ! i) c = ?r c"
    using r2 r3 other by simp
  with g rw d o show "\<exists>rent fees area.
        gn (st (?r ''rent_price'')) = Inr rent
        \<and> gn (st (?r ''additional_fees'')) = Inr fees
        \<and> gn (st (?r ''area'')) = Inr area
        \<and> (fees \<noteq> NaN \<longrightarrow> add rent fees = Inr ((rows out ! i) ''rent_price''))
        \<and> (fees = NaN \<longrightarrow> (rows out ! i) ''rent_price'' = rent)
        \<and> dv ((rows out ! i) ''rent_price'') area = Inr ((rows out ! i) ''price_per_square'')
        \<and> (\<forall>c. c \<notin> {''rent_price'', ''additional_fees'', ''area'', ''price_per_square''} \<longrightarrow>
              (rows out ! i) c = ?r c)"
    by (intro exI[of _ "?rc ''rent_price''"] exI[of _ "?rc ''additional_fees''"]
        exI[of _ "?rc ''area''"]) (simp split: if_splits)
qed

text \<open>
  Claim C3. In the preparation of the historical data, with the three columns read as
  numbers by \<^verbatim>\<open>get_numbers(str(x))\<close>: for every row the final \<^verbatim>\<open>rent_price\<close> is the
  rent plus the additional fees when the fees are not missing, and the rent when they
  are; \<^verbatim>\<open>price_per_square\<close> is that final \<^verbatim>\<open>rent_price\<close> divided by the area.
\<close>

theorem price_per_square_total_rent:
  assumes "price_per_square gn st plus_op quot legacy = Inr out"
  shows "length (rows out) = length (rows legacy)
     \<and> (\<forall>i<length (rows legacy).
          \<exists>rent fees area.
            gn (st ((rows legacy ! i) ''rent_price'')) = Inr rent
            \<and> gn (st ((rows legacy ! i) ''additional_fees'')) = Inr fees
            \<and> gn (st ((rows legacy ! i) ''area'')) = Inr area
            \<and> (fees \<noteq> NaN \<longrightarrow> plus_op rent fees = Inr ((rows out ! i) ''rent_price''))
            \<and> (fees = NaN \<longrightarrow> (rows out ! i) ''rent_price'' = rent)
            \<and> quot ((rows out ! i) ''rent_price'') area = Inr ((rows out ! i) ''price_per_square''))"
proof -
  note r = price_per_square_rows[OF assms]
  have "\<forall>i<length (rows legacy).
          \<exists>rent fees area.
            gn (st ((rows legacy ! i) ''rent_price'')) = Inr rent
            \<and> gn (st ((rows legacy ! i) ''additional_fees'')) = Inr fees
            \<and> gn (st ((rows legacy ! i) ''area'')) = Inr area
            \<and> (fees \<noteq> NaN \<longrightarrow> plus_op rent fees = Inr ((rows out ! i) ''rent_price''))
            \<and> (fees = NaN \<longrightarrow> (rows out ! i) ''rent_price'' = rent)
            \<and> quot ((rows out ! i) ''rent_price'') area = Inr ((rows out ! i) ''price_per_square'')"
  proof (intro allI impI)
    fix i assume "i < length (rows legacy)"
    from r(2)[OF this] show "\<exists>rent fees area.
            gn (st ((rows legacy ! i) ''rent_price'')) = Inr rent
            \<and> gn (st ((rows legacy ! i) ''additional_fees'')) = Inr fees
            \<and> gn (st ((rows legacy ! i) ''area'')) = Inr area
            \<and> (fees \<noteq> NaN \<longrightarrow> plus_op rent fees = Inr ((rows out ! i) ''rent_price''))
            \<and> (fees = NaN \<longrightarrow> (rows out ! i) ''rent_price'' = rent)
            \<and> quot ((rows out ! i) ''rent_price'') area = Inr ((rows out ! i) ''price_per_square'')"
      by (elim exE conjE) (intro exI conjI; assumption)
  qed
  with r(1) show ?thesis by simp
qed

lemma exact_coordinates_rows:
  assumes "exact_coordinates obj_eq legacy = Inr df"
  shows "rows df = filter (\<lambda>r. \<not> eq_True obj_eq (r ''approximate_coordinates'')) (rows legacy)"
proof -
  from assms have "df = select_rows legacy
      (map (\<lambda>c. \<not> eq_True obj_eq c) (map (\<lambda>r. r ''approximate_coordinates'') (rows legacy)))"
    unfolding exact_coordinates_def ebind_Inr_iff get_attr_Inr by auto
  then show ?thesis by (simp only: select_rows_column)
qed

lemma legacy_for_average_rows:
  assumes "legacy_for_average obj_eq gn st plus_op quot legacy = Inr out"
  shows "(\<forall>r\<in>set (rows out). \<not> eq_True obj_eq (r ''approximate_coordinates''))
     \<and> length (rows out) =
         length (filter (\<lambda>r. \<not> eq_True obj_eq (r ''approximate_coordinates'')) (rows legacy))
     \<and> (\<forall>i<length (rows out). \<forall>c.
          c \<notin> {''rent_price'', ''additional_fees'', ''area'', ''price_per_square''} \<longrightarrow>
          (rows out ! i) c =
            (filter (\<lambda>r. \<not> eq_True obj_eq (r ''approximate_coordinates'')) (rows legacy) ! i) c)
     \<and> \<not> eq_True obj_eq (Bool False) \<and> \<not> eq_True obj_eq NaN \<and> eq_True obj_eq (Bool True)"
proof -
  let ?kept = "filter (\<lambda>r. \<not> eq_True obj_eq (r ''approximate_coordinates'')) (rows legacy)"
  from assms obtain df where
    df: "exact_coordinates obj_eq legacy = Inr df"
    and p: "price_per_square gn st plus_op quot df = Inr out"
    unfolding legacy_for_average_def ebind_Inr_iff by blast
  from exact_coordinates_rows[OF df] have kept: "rows df = ?kept" .
  note r = price_per_square_rows[OF p]
  from r(1) kept have len: "length (rows out) = length ?kept" by simp
  have frame: "\<forall>i<length (rows out). \<forall>c.
          c \<notin> {''rent_price'', ''additional_fees'', ''area'', ''price_per_square''} \<longrightarrow>
          (rows out ! i) c = (?kept ! i) c"
  proof (intro allI impI)
    fix i c assume i: "i < length (rows out)"
      and c: "c \<notin> {''rent_price'', ''additional_fees'', ''area'', ''price_per_square''}"
    from i r(1) have "i < length (rows df)" by simp
    from r(2)[OF this] have "\<forall>c. c \<notin> {''rent_price'', ''additional_fees'', ''area'', ''price_per_square''} \<longrightarrow>
              (rows out ! i) c = (rows df ! i) c"
      by (elim exE conjE)
    with c have "(rows out ! i) c = (rows df ! i) c" by (elim allE impE)
    with kept show "(rows out ! i) c = (?kept ! i) c" by simp
  qed
  have "\<forall>r\<in>set (rows out). \<not> eq_True obj_eq (r ''approximate_coordinates'')"
  proof
    fix r assume "r \<in> set (rows out)"
    then obtain i where i: "i < length (rows out)" "r = rows out ! i"
      by (auto simp: in_set_conv_nth)
    have n: "''approximate_coordinates'' \<notin>
        {''rent_price'', ''additional_fees'', ''area'', ''price_per_square''}" by simp
    have e: "r ''approximate_coordinates'' = (?kept ! i) ''approximate_coordinates''"
      unfolding i(2) by (rule frame[rule_format, OF i(1) n])
    from i len have "i < length ?kept" by simp
    then have "?kept ! i \<in> set ?kept" by (rule nth_mem)
    then have "\<not> eq_True obj_eq ((?kept ! i) ''approximate_coordinates'')"
      unfolding set_filter by (rule CollectE) (erule conjunct2)
    with e show "\<not> eq_True obj_eq (r ''approximate_coordinates'')" by simp
  qed
  with len frame show ?thesis by (simp add: eq_True_def)
qed

text \<open>
  Claim C10. The legacy table that the notebook passes to \<^verbatim>\<open>average_price_within_radius\<close>
  has no row whose \<^verbatim>\<open>approximate_coordinates\<close> equals \<^verbatim>\<open>True\<close>: the section of the
  historical average calls the function on the main table and on the rows of the
  historical table whose flag does not equal \<^verbatim>\<open>True\<close>, in order and changed in the price
  columns only, and on nothing else, so that its result does not depend on what the
  function does on a table with a flagged row. A flag that is \<^verbatim>\<open>False\<close> or missing does not
  equal \<^verbatim>\<open>True\<close>, so those rows are kept.
\<close>

theorem average_on_exact_legacy:
  "(average_section env inp df = Inr out \<longrightarrow>
      (\<exists>legacy_data avg.
         legacy_for_average (env_obj_eq env) (get_numbers env) (env_str env) (env_add env)
           (env_truediv env) (historical inp) = Inr legacy_data
         \<and> average_price_within_radius env df legacy_data (5, 1) = Inr avg
         \<and> set_column df ''avg_price'' avg = Inr out
         \<and> (\<forall>r\<in>set (rows legacy_data). \<not> eq_True (env_obj_eq env) (r ''approximate_coordinates''))
         \<and> length (rows legacy_data) =
             length (filter (\<lambda>r. \<not> eq_True (env_obj_eq env) (r ''approximate_coordinates''))
                       (rows (historical inp)))
         \<and> (\<forall>i<length (rows legacy_data). \<forall>c.
              c \<notin> {''rent_price'', ''additional_fees'', ''area'', ''price_per_square''} \<longrightarrow>
              (rows legacy_data ! i) c =
                (filter (\<lambda>r. \<not> eq_True (env_obj_eq env) (r ''approximate_coordinates''))
                   (rows (historical inp)) ! i) c)))
   \<and> ((\<forall>legacy_data.
          (\<forall>r\<in>set (rows legacy_data). \<not> eq_True (env_obj_eq env) (r ''approximate_coordinates'')) \<longrightarrow>
          f df legacy_data (5, 1) = average_price_within_radius env df legacy_data (5, 1)) \<longrightarrow>
       average_section (env\<lparr>average_price_within_radius := f\<rparr>) inp df = average_section env inp df)
   \<and> \<not> eq_True (env_obj_eq env) (Bool False) \<and> \<not> eq_True (env_obj_eq env) NaN
   \<and> eq_True (env_obj_eq env) (Bool True)"
proof -
  let ?legacy = "legacy_for_average (env_obj_eq env) (get_numbers env) (env_str env) (env_add env)
           (env_truediv env) (historical inp)"
  have passed: "average_section env inp df = Inr out \<longrightarrow>
      (\<exists>legacy_data avg.
         ?legacy = Inr legacy_data
         \<and> average_price_within_radius env df legacy_data (5, 1) = Inr avg
         \<and> set_column df ''avg_price'' avg = Inr out
         \<and> (\<forall>r\<in>set (rows legacy_data). \<not> eq_True (env_obj_eq env) (r ''approximate_coordinates''))
         \<and> length (rows legacy_data) =
             length (filter (\<lambda>r. \<not> eq_True (env_obj_eq env) (r ''approximate_coordinates''))
                       (rows (historical inp)))
         \<and> (\<forall>i<length (rows legacy_data). \<forall>c.
              c \<notin> {''rent_price'', ''additional_fees'', ''area'', ''price_per_square''} \<longrightarrow>
              (rows legacy_data ! i) c =
                (filter (\<lambda>r. \<not> eq_True (env_obj_eq env) (r ''approximate_coordinates''))
                   (rows (historical inp)) ! i) c))"
  proof
    assume "average_section env inp df = Inr out"
    then obtain legacy_data avg where
      l: "?legacy = Inr legacy_data"
      and a: "average_price_within_radius env df legacy_data (5, 1) = Inr avg"
      and s: "set_column df ''avg_price'' avg = Inr out"
      unfolding average_section_def ebind_Inr_iff by blast
    note r = legacy_for_average_rows[OF l]
    from r have r1: "\<forall>r\<in>set (rows legacy_data). \<not> eq_True (env_obj_eq env) (r ''approximate_coordinates'')"
      by (rule conjunct1)
    from r have r2: "length (rows legacy_data) =
             length (filter (\<lambda>r. \<not> eq_True (env_obj_eq env) (r ''approximate_coordinates''))
                       (rows (historical inp)))"
      by (elim conjE)
    from r have r3: "\<forall>i<length (rows legacy_data). \<forall>c.
              c \<notin> {''rent_price'', ''additional_fees'', ''area'', ''price_per_square''} \<longrightarrow>
              (rows legacy_data ! i) c =
                (filter (\<lambda>r. \<not> eq_True (env_obj_eq env) (r ''approximate_coordinates''))
                   (rows (historical inp)) ! i) c"
      by (elim conjE)
    from l a s r1 r2 r3 show "\<exists>legacy_data avg.
         ?legacy = Inr legacy_data
         \<and> average_price_within_radius env df legacy_data (5, 1) = Inr avg
         \<and> set_column df ''avg_price'' avg = Inr out
         \<and> (\<forall>r\<in>set (rows legacy_data). \<not> eq_True (env_obj_eq env) (r ''approximate_coordinates''))
         \<and> length (rows legacy_data) =
             length (filter (\<lambda>r. \<not> eq_True (env_obj_eq env) (r ''approximate_coordinates''))
                       (rows (historical inp)))
         \<and> (\<forall>i<length (rows legacy_data). \<forall>c.
              c \<notin> {''rent_price'', ''additional_fees'', ''area'', ''price_per_square''} \<longrightarrow>
              (rows legacy_data ! i) c =
                (filter (\<lambda>r. \<not> eq_True (env_obj_eq env) (r ''approximate_coordinates''))
                   (rows (historical inp)) ! i) c)"
      by (intro exI conjI)
  qed
  have only: "(\<forall>legacy_data.
          (\<forall>r\<in>set (rows legacy_data). \<not> eq_True (env_obj_eq env) (r ''approximate_coordinates'')) \<longrightarrow>
          f df legacy_data (5, 1) = average_price_within_radius env df legacy_data (5, 1)) \<longrightarrow>
       average_section (env\<lparr>average_price_within_radius := f\<rparr>) inp df = average_section env inp df"
  proof
    assume agree: "\<forall>legacy_data.
          (\<forall>r\<in>set (rows legacy_data). \<not> eq_True (env_obj_eq env) (r ''approximate_coordinates'')) \<longrightarrow>
          f df legacy_data (5, 1) = average_price_within_radius env df legacy_data (5, 1)"
    show "average_section (env\<lparr>average_price_within_radius := f\<rparr>) inp df = average_section env inp df"
    proof (cases ?legacy)
      case (Inl e)
      then show ?thesis by (simp add: average_section_def)
    next
      case (Inr legacy_data)
      from legacy_for_average_rows[OF Inr]
      have "\<forall>r\<in>set (rows legacy_data). \<not> eq_True (env_obj_eq env) (r ''approximate_coordinates'')"
        by (rule conjunct1)
      with agree have "f df legacy_data (5, 1) = average_price_within_radius env df legacy_data (5, 1)"
        by (elim allE impE)
      with Inr show ?thesis by (simp add: average_section_def)
    qed
  qed
  have "\<not> eq_True (env_obj_eq env) (Bool False) \<and> \<not> eq_True (env_obj_eq env) NaN
   \<and> eq_True (env_obj_eq env) (Bool True)" by (simp add: eq_True_def)
  with passed only show ?thesis by (intro conjI) (elim conjE; assumption)+
qed

section \<open>Properties of the fee generation notebook\<close>

lemma filter_lines_empty: "filter_lines dv [] = []"
  by (simp add: filter_lines_def number_pattern_not_empty)

lemma emap_cong: "\<forall>x\<in>set xs. f x = g x \<Longrightarrow> emap f xs = emap g xs"
  by (induction xs) (auto split: sum.splits)

lemma emap_total: "\<forall>x\<in>set xs. f x = Inr (g x) \<Longrightarrow> emap f xs = Inr (map g xs)"
  by (induction xs) (auto split: sum.splits)

lemma apply_filter_lines_Inr:
  "apply_filter_lines dv c = Inr v \<longleftrightarrow> (\<exists>t. c = Str t \<and> v = Str (filter_lines dv t))"
  by (cases c) (auto simp: apply_filter_lines_def)

lemma emap_apply_filter_lines:
  assumes "emap (apply_filter_lines dv) (map (\<lambda>r. r c) rws) = Inr fd"
  shows "fd = map (\<lambda>r. Str (filter_lines dv (text_of (r c)))) rws"
    and "\<And>r. r \<in> set rws \<Longrightarrow> \<exists>t. r c = Str t"
proof -
  from assms have a: "list_all2 (\<lambda>x y. apply_filter_lines dv x = Inr y) (map (\<lambda>r. r c) rws) fd"
    by (simp add: emap_Inr_iff)
  then have len: "length fd = length rws" by (auto dest: list_all2_lengthD)
  have nth: "\<And>i. i < length rws \<Longrightarrow> \<exists>t. (rws ! i) c = Str t \<and> fd ! i = Str (filter_lines dv t)"
  proof -
    fix i assume i: "i < length rws"
    with a have "apply_filter_lines dv ((rws ! i) c) = Inr (fd ! i)"
      by (auto dest: list_all2_nthD)
    then show "\<exists>t. (rws ! i) c = Str t \<and> fd ! i = Str (filter_lines dv t)"
      by (simp add: apply_filter_lines_Inr)
  qed
  show "fd = map (\<lambda>r. Str (filter_lines dv (text_of (r c)))) rws"
  proof (rule nth_equalityI)
    show "length fd = length (map (\<lambda>r. Str (filter_lines dv (text_of (r c)))) rws)"
      using len by simp
  next
    fix i assume "i < length fd"
    with len have i: "i < length rws" by simp
    from nth[OF i] obtain t where "(rws ! i) c = Str t" "fd ! i = Str (filter_lines dv t)" by blast
    with i show "fd ! i = map (\<lambda>r. Str (filter_lines dv (text_of (r c)))) rws ! i"
      by (simp add: text_of_def)
  qed
  fix r assume "r \<in> set rws"
  then obtain i where "i < length rws" "r = rws ! i" by (auto simp: in_set_conv_nth)
  with nth[of i] show "\<exists>t. r c = Str t" by auto
qed

lemma both_masks:
  assumes "emap (\<lambda>x. p x) (map f rws) = Inr m1" "emap (\<lambda>x. q x) (map g rws) = Inr m2"
  shows "map fst (filter snd (zip rws (map (\<lambda>(a, b). a \<and> b) (zip m1 m2)))) =
         filter (\<lambda>r. p (f r) = Inr True \<and> q (g r) = Inr True) rws"
proof (rule select_rows_filter)
  from assms have l: "length m1 = length rws" "length m2 = length rws"
    by (auto dest: emap_length)
  show "list_all2 (\<lambda>x b. b \<longleftrightarrow> (p (f x) = Inr True \<and> q (g x) = Inr True)) rws
      (map (\<lambda>(a, b). a \<and> b) (zip m1 m2))"
  proof (rule list_all2_all_nthI)
    show "length rws = length (map (\<lambda>(a, b). a \<and> b) (zip m1 m2))" using l by simp
  next
    fix i assume i: "i < length rws"
    from emap_nth[OF assms(1)] i have a: "p (f (rws ! i)) = Inr (m1 ! i)" by simp
    from emap_nth[OF assms(2)] i have b: "q (g (rws ! i)) = Inr (m2 ! i)" by simp
    from i l a b show "map (\<lambda>(a, b). a \<and> b) (zip m1 m2) ! i \<longleftrightarrow>
        (p (f (rws ! i)) = Inr True \<and> q (g (rws ! i)) = Inr True)" by simp
  qed
qed

lemma qualifies_alt:
  "qualifies dv le lt r \<longleftrightarrow>
     (le (r ''added_dt'') (Str (str ''2025-02-04'')) = Inr True
      \<and> lt (r ''additional_fees'') (Integer 100) = Inr True)
     \<and> filter_lines dv (text_of (r ''adv_description'')) \<noteq> []"
  by (cases "r ''adv_description''") (simp_all add: qualifies_def text_of_def filter_lines_empty)

lemma llm_candidates_rows:
  assumes "llm_candidates dv le lt df = Inr cand"
  shows "rows cand =
      map (\<lambda>r. r(''filtered_description'' := Str (filter_lines dv (text_of (r ''adv_description'')))))
        (filter (qualifies dv le lt) (rows df))"
    and "''filtered_description'' \<in> set (columns cand)"
proof -
  let ?D = "Str (str ''2025-02-04'') :: 'a cell" and ?H = "Integer 100 :: 'a cell"
  let ?upd = "\<lambda>r::'a row. r(''filtered_description'' :=
      Str (filter_lines dv (text_of (r ''adv_description''))))"
  from assms obtain m1 m2 df2 fd df3 where
    m1: "emap (\<lambda>x. le x ?D) (map (\<lambda>r. r ''added_dt'') (rows df)) = Inr m1"
    and m2: "emap (\<lambda>x. lt x ?H) (map (\<lambda>r. r ''additional_fees'') (rows df)) = Inr m2"
    and df2: "select_columns (select_rows df (map (\<lambda>(a, b). a \<and> b) (zip m1 m2)))
        [''link'', ''rent'', ''additional_fees'', ''adv_description''] = Inr df2"
    and fd: "emap (apply_filter_lines dv) (map (\<lambda>r. r ''adv_description'') (rows df2)) = Inr fd"
    and df3: "set_column df2 ''filtered_description'' fd = Inr df3"
    and fdc: "''filtered_description'' \<in> set (columns df3)"
    and cand: "cand = select_rows df3
        (map (\<lambda>c. c \<noteq> Str []) (map (\<lambda>r. r ''filtered_description'') (rows df3)))"
    unfolding llm_candidates_def Let_def ebind_Inr_iff get_attr_Inr get_column_Inr by blast
  let ?P = "\<lambda>r. le (r ''added_dt'') ?D = Inr True \<and> lt (r ''additional_fees'') ?H = Inr True"
  from df2 have "rows df2 = rows (select_rows df (map (\<lambda>(a, b). a \<and> b) (zip m1 m2)))"
    by (auto simp: select_columns_def split: if_splits)
  then have r2: "rows df2 = filter ?P (rows df)"
    unfolding select_rows_def using both_masks[OF m1 m2] by simp
  note f = emap_apply_filter_lines[OF fd]
  from df3 f(1) have r3: "rows df3 = map ?upd (rows df2)"
    by (simp add: set_column_Inr zip_map_same[of "\<lambda>r. r" _ "\<lambda>r. Str (filter_lines dv (text_of (r ''adv_description'')))", simplified] map_zip_map2 comp_def)
  from cand have "rows cand = filter (\<lambda>r. r ''filtered_description'' \<noteq> Str []) (rows df3)"
    by (simp only: select_rows_column)
  also have "\<dots> = map ?upd (filter (\<lambda>r. filter_lines dv (text_of (r ''adv_description'')) \<noteq> [])
      (rows df2))"
    unfolding r3 filter_map by (simp add: comp_def)
  also have "filter (\<lambda>r. filter_lines dv (text_of (r ''adv_description'')) \<noteq> []) (rows df2) =
      filter (qualifies dv le lt) (rows df)"
    unfolding r2 by (simp add: qualifies_alt[abs_def] conj_assoc)
  finally show "rows cand = map ?upd (filter (qualifies dv le lt) (rows df))" .
  from cand fdc show "''filtered_description'' \<in> set (columns cand)"
    by (simp add: select_rows_def)
qed


text \<open>
  Claim C7. The language model is asked only about listings with \<^verbatim>\<open>added_dt\<close> at most
  \<^verbatim>\<open>'2025-02-04'\<close>, \<^verbatim>\<open>additional_fees\<close> below 100 and a non-empty
  \<^verbatim>\<open>filtered_description\<close>: the requests are the filtered descriptions of exactly these
  listings, in order, and the result of the notebook does not depend on what the model
  would answer to any other text.
\<close>

theorem llm_only_on_qualifying:
  "(llm_candidates dv le lt df = Inr cand \<longrightarrow>
      rows cand =
        map (\<lambda>r. r(''filtered_description'' := Str (filter_lines dv (text_of (r ''adv_description'')))))
          (filter (qualifies dv le lt) (rows df))
      \<and> get_column cand ''filtered_description'' =
          Inr (map (\<lambda>r. Str (filter_lines dv (text_of (r ''adv_description''))))
                (filter (qualifies dv le lt) (rows df))))
   \<and> ((\<forall>r\<in>set (filter (qualifies dv le lt) (rows df)).
         q (Str (filter_lines dv (text_of (r ''adv_description'')))) =
         q' (Str (filter_lines dv (text_of (r ''adv_description''))))) \<longrightarrow>
       fee_generation dv le lt q df = fee_generation dv le lt q' df)
   \<and> (\<forall>r\<in>set (filter (qualifies dv le lt) (rows df)).
         le (r ''added_dt'') (Str (str ''2025-02-04'')) = Inr True
         \<and> lt (r ''additional_fees'') (Integer 100) = Inr True
         \<and> filter_lines dv (text_of (r ''adv_description'')) \<noteq> [])"
proof -
  let ?kept = "filter (qualifies dv le lt) (rows df)"
  let ?req = "\<lambda>r::'a row. Str (filter_lines dv (text_of (r ''adv_description''))) :: 'a cell"
  let ?upd = "\<lambda>r::'a row. r(''filtered_description'' := ?req r)"
  have col: "get_column c ''filtered_description'' = Inr (map ?req ?kept)"
    if "llm_candidates dv le lt df = Inr c" for c
  proof -
    from llm_candidates_rows[OF that] show ?thesis by (simp add: get_column_def comp_def)
  qed
  have one: "llm_candidates dv le lt df = Inr cand \<longrightarrow>
      rows cand = map ?upd ?kept \<and> get_column cand ''filtered_description'' = Inr (map ?req ?kept)"
    using llm_candidates_rows(1)[of dv le lt df cand] col[of cand] by blast
  have two: "fee_generation dv le lt q df = fee_generation dv le lt q' df"
    if agree: "\<forall>r\<in>set ?kept. q (?req r) = q' (?req r)"
  proof (cases "llm_candidates dv le lt df")
    case (Inl e)
    then show ?thesis by (simp add: fee_generation_def)
  next
    case (Inr c)
    from agree have "\<forall>x\<in>set (map ?req ?kept). q x = q' x" by simp
    then have "emap q (map ?req ?kept) = emap q' (map ?req ?kept)" by (rule emap_cong)
    with Inr col[OF Inr] show ?thesis by (simp add: fee_generation_def)
  qed
  have three: "\<forall>r\<in>set ?kept.
         le (r ''added_dt'') (Str (str ''2025-02-04'')) = Inr True
         \<and> lt (r ''additional_fees'') (Integer 100) = Inr True
         \<and> filter_lines dv (text_of (r ''adv_description'')) \<noteq> []"
    by (simp add: qualifies_alt)
  from one two three show ?thesis by blast
qed

section \<open>The fees computed from the outputs of the language model\<close>

lemma long_runs_replicate:
  assumes "is_digit dv c" "3 \<le> n"
  shows "long_runs dv (replicate n c) = [replicate n c]"
proof -
  from assms(2) obtain k where n: "n = Suc k" by (cases n) auto
  have "digit_runs (is_digit dv) (replicate (Suc k) c) = [replicate (Suc k) c]"
    using assms(1) by (simp add: takeWhile_replicate dropWhile_replicate)
  with assms(2) n show ?thesis by (simp add: long_runs_def)
qed

lemma apply_extract_and_sum_Inr:
  assumes "apply_extract_and_sum dv c = Inr v"
  shows "\<exists>t n. c = Str t \<and> extract_and_sum dv t fee_pattern = Some (Inr (int n))
     \<and> v = Integer (int n)"
proof -
  from assms obtain t where t: "c = Str t"
    by (cases c) (simp_all add: apply_extract_and_sum_def)
  let ?sum = "sum_list (map (decimal_value dv) (long_runs dv t))"
  from sum_decimal_nonneg[of dv "long_runs dv t"] obtain n where n: "?sum = int n"
    by (metis nonneg_int_cases)
  from assms t have "extract_and_sum dv t fee_pattern = Some (Inr ?sum) \<and> v = Integer ?sum"
    by (simp add: apply_extract_and_sum_def extract_and_sum_fee split: if_splits)
  with t n show ?thesis by simp
qed

lemma fee_generation_rows:
  assumes "fee_generation dv le lt query_llm df = Inr out"
  shows "''real_additional_fees'' \<in> set (columns out)"
    and "\<forall>r\<in>set (rows out). \<exists>t n.
             query_llm (r ''filtered_description'') = Inr (Str t)
             \<and> r ''llm_output'' = Str t
             \<and> extract_and_sum dv t fee_pattern = Some (Inr (int n))
             \<and> r ''real_additional_fees'' = Integer (int n)"
proof -
  from assms obtain cand fd lo df1 lo' fees where
    fd: "get_column cand ''filtered_description'' = Inr fd"
    and lo: "emap query_llm fd = Inr lo"
    and df1: "set_column cand ''llm_output'' lo = Inr df1"
    and lo': "get_column df1 ''llm_output'' = Inr lo'"
    and fees: "emap (apply_extract_and_sum dv) lo' = Inr fees"
    and out: "set_column df1 ''real_additional_fees'' fees = Inr out"
    unfolding fee_generation_def ebind_Inr_iff by blast
  note s1 = set_column_rows[OF df1]
  note s2 = set_column_rows[OF out]
  from s2(4) show "''real_additional_fees'' \<in> set (columns out)" .
  from fd have fd_eq: "fd = map (\<lambda>r. r ''filtered_description'') (rows cand)"
    by (simp add: get_column_def split: if_splits)
  from lo' have lo'_eq: "lo' = map (\<lambda>r. r ''llm_output'') (rows df1)"
    by (simp add: get_column_def split: if_splits)
  from emap_length[OF lo] fd_eq have len_lo: "length lo = length (rows cand)" by simp
  show "\<forall>r\<in>set (rows out). \<exists>t n.
             query_llm (r ''filtered_description'') = Inr (Str t)
             \<and> r ''llm_output'' = Str t
             \<and> extract_and_sum dv t fee_pattern = Some (Inr (int n))
             \<and> r ''real_additional_fees'' = Integer (int n)"
  proof
    fix r assume "r \<in> set (rows out)"
    then obtain i where i: "i < length (rows out)" and r: "r = rows out ! i"
      by (auto simp: in_set_conv_nth)
    from i s2(1) s1(1) have i1: "i < length (rows df1)" and ic: "i < length (rows cand)" by simp_all
    from s2(2)[OF i1] r have r_out: "r = (rows df1 ! i)(''real_additional_fees'' := fees ! i)" by simp
    from s1(2)[OF ic] have r_df1: "rows df1 ! i = (rows cand ! i)(''llm_output'' := lo ! i)" .
    from r_out r_df1 have a: "r ''real_additional_fees'' = fees ! i" "r ''llm_output'' = lo ! i"
      "r ''filtered_description'' = (rows cand ! i) ''filtered_description''" by simp_all
    from ic fd_eq have "i < length fd" "fd ! i = (rows cand ! i) ''filtered_description''" by simp_all
    with emap_nth[OF lo, of i] a(3) have q: "query_llm (r ''filtered_description'') = Inr (lo ! i)"
      by simp
    from i1 lo'_eq r_df1 have "i < length lo'" "lo' ! i = lo ! i" by simp_all
    with emap_nth[OF fees, of i] have "apply_extract_and_sum dv (lo ! i) = Inr (fees ! i)" by simp
    from apply_extract_and_sum_Inr[OF this] obtain t n where
      "lo ! i = Str t" "extract_and_sum dv t fee_pattern = Some (Inr (int n))"
      "fees ! i = Integer (int n)" by blast
    with a q show "\<exists>t n.
             query_llm (r ''filtered_description'') = Inr (Str t)
             \<and> r ''llm_output'' = Str t
             \<and> extract_and_sum dv t fee_pattern = Some (Inr (int n))
             \<and> r ''real_additional_fees'' = Integer (int n)" by simp
  qed
qed

text \<open>
  Claim C1, as amended. For every text whose runs of digits have at most 4300 digits,
  \<^verbatim>\<open>extract_and_sum(text, r'(\d{3,})')\<close> returns the sum of the integer values of the
  maximal runs of three or more digits of the text, a nonnegative integer, and 0 when
  there is no such run; on a text with a longer run of digits it raises \<^verbatim>\<open>ValueError\<close>.
  Every \<^verbatim>\<open>real_additional_fees\<close> value of the table that the notebook computes is the
  result of this function on the output of the language model in the same row, and a
  nonnegative integer.
\<close>

theorem extract_and_sum_long_runs:
  "extract_and_sum dv text fee_pattern =
     Some (if \<forall>ds\<in>set (long_runs dv text). length ds \<le> int_max_str_digits
           then Inr (sum_list (map (decimal_value dv) (long_runs dv text)))
           else Inl ValueError)
   \<and> (long_runs dv text = [] \<longrightarrow> extract_and_sum dv text fee_pattern = Some (Inr 0))
   \<and> 0 \<le> sum_list (map (decimal_value dv) (long_runs dv text))
   \<and> (fee_generation dv le lt query_llm df = Inr out \<longrightarrow>
        ''real_additional_fees'' \<in> set (columns out)
        \<and> (\<forall>r\<in>set (rows out). \<exists>t n.
             query_llm (r ''filtered_description'') = Inr (Str t)
             \<and> r ''llm_output'' = Str t
             \<and> extract_and_sum dv t fee_pattern = Some (Inr (int n))
             \<and> r ''real_additional_fees'' = Integer (int n)))"
proof (intro conjI impI)
  show "extract_and_sum dv text fee_pattern =
     Some (if \<forall>ds\<in>set (long_runs dv text). length ds \<le> int_max_str_digits
           then Inr (sum_list (map (decimal_value dv) (long_runs dv text)))
           else Inl ValueError)"
    by (rule extract_and_sum_fee)
next
  assume "long_runs dv text = []"
  then show "extract_and_sum dv text fee_pattern = Some (Inr 0)"
    by (simp add: extract_and_sum_fee)
next
  show "0 \<le> sum_list (map (decimal_value dv) (long_runs dv text))"
    by (rule sum_decimal_nonneg)
next
  assume "fee_generation dv le lt query_llm df = Inr out"
  then show "''real_additional_fees'' \<in> set (columns out)" by (rule fee_generation_rows(1))
next
  assume "fee_generation dv le lt query_llm df = Inr out"
  then show "\<forall>r\<in>set (rows out). \<exists>t n.
             query_llm (r ''filtered_description'') = Inr (Str t)
             \<and> r ''llm_output'' = Str t
             \<and> extract_and_sum dv t fee_pattern = Some (Inr (int n))
             \<and> r ''real_additional_fees'' = Integer (int n)" by (rule fee_generation_rows(2))
qed

theorem extract_and_sum_long_runs_witness:
  "long_runs ascii_dv (str ''Media: 12 zl'') = []
   \<and> extract_and_sum ascii_dv (str ''Media: 12 zl'') fee_pattern = Some (Inr 0)
   \<and> long_runs ascii_dv (str ''Czynsz: 650, prad 1200, woda 99'') = [str ''650'', str ''1200'']
   \<and> extract_and_sum ascii_dv (str ''Czynsz: 650, prad 1200, woda 99'') fee_pattern
       = Some (Inr 1850)
   \<and> (\<exists>out. fee_generation ascii_dv sample_le sample_lt
               (\<lambda>c. Inr (Str (str ''czynsz: 650, media 1200''))) sample_main = Inr out
        \<and> length (rows out) = 1
        \<and> (rows out ! 0) ''llm_output'' = Str (str ''czynsz: 650, media 1200'')
        \<and> (rows out ! 0) ''real_additional_fees'' = Integer 1850)"
proof -
  let ?q = "\<lambda>c::unit cell. Inr (Str (str ''czynsz: 650, media 1200'')) :: py_error + unit cell"
  let ?g = "fee_generation ascii_dv sample_le sample_lt ?q sample_main"
  have a: "long_runs ascii_dv (str ''Media: 12 zl'') = []" by code_simp
  have b: "long_runs ascii_dv (str ''Czynsz: 650, prad 1200, woda 99'') = [str ''650'', str ''1200'']"
    by code_simp
  have c: "sum_list (map (decimal_value ascii_dv) [str ''650'', str ''1200'']) = 1850" by code_simp
  have l: "\<forall>ds\<in>set [str ''650'', str ''1200'']. length ds \<le> int_max_str_digits"
    by (simp add: str_def int_max_str_digits_def)
  have ev: "case ?g of Inl e \<Rightarrow> False
    | Inr out \<Rightarrow> length (rows out) = 1
        \<and> (rows out ! 0) ''llm_output'' = Str (str ''czynsz: 650, media 1200'')" by code_simp
  then obtain out where o: "?g = Inr out" and len: "length (rows out) = 1"
    and lo: "(rows out ! 0) ''llm_output'' = Str (str ''czynsz: 650, media 1200'')"
    by (cases ?g) auto
  have d: "extract_and_sum ascii_dv (str ''czynsz: 650, media 1200'') fee_pattern = Some (Inr 1850)"
    by code_simp
  note t1 = extract_and_sum_long_runs[of ascii_dv "str ''Media: 12 zl''" sample_le sample_lt ?q
      sample_main out]
  note t2 = extract_and_sum_long_runs[of ascii_dv "str ''Czynsz: 650, prad 1200, woda 99''"
      sample_le sample_lt ?q sample_main out]
  from t1 a have e1: "extract_and_sum ascii_dv (str ''Media: 12 zl'') fee_pattern = Some (Inr 0)"
    by blast
  from t2 b c l have e2: "extract_and_sum ascii_dv (str ''Czynsz: 650, prad 1200, woda 99'')
      fee_pattern = Some (Inr 1850)" by simp
  from len have "rows out ! 0 \<in> set (rows out)" by simp
  with t1 o obtain t n where
    "(rows out ! 0) ''llm_output'' = Str t"
    "extract_and_sum ascii_dv t fee_pattern = Some (Inr (int n))"
    "(rows out ! 0) ''real_additional_fees'' = Integer (int n)" by blast
  with lo d have f: "(rows out ! 0) ''real_additional_fees'' = Integer 1850" by simp
  from o len lo f have "\<exists>out. ?g = Inr out
        \<and> length (rows out) = 1
        \<and> (rows out ! 0) ''llm_output'' = Str (str ''czynsz: 650, media 1200'')
        \<and> (rows out ! 0) ''real_additional_fees'' = Integer 1850"
    by (intro exI conjI)
  with a e1 b e2 show ?thesis by (intro conjI)
qed

text \<open>
  Claim C1 as it was stated fails: the text of 4301 zeros is one run of digits, of value
  0, and \<^verbatim>\<open>extract_and_sum\<close> raises \<^verbatim>\<open>ValueError\<close> on it instead of returning 0.
\<close>

theorem extract_and_sum_limit_counterexample:
  "long_runs ascii_dv (replicate 4301 48) = [replicate 4301 48]
   \<and> extract_and_sum ascii_dv (replicate 4301 48) fee_pattern = Some (Inl ValueError)"
proof -
  have d: "is_digit ascii_dv 48" by (simp add: is_digit_def ascii_dv_def)
  have r: "long_runs ascii_dv (replicate 4301 48) = [replicate 4301 48]"
    by (rule long_runs_replicate[OF d]) simp
  have "extract_and_sum ascii_dv (replicate 4301 48) fee_pattern = Some (Inl ValueError)"
    unfolding extract_and_sum_fee r by (simp add: int_max_str_digits_def)
  with r show ?thesis by (rule conjI)
qed

section \<open>Properties of the stop distances\<close>

lemma fold_min_lower:
  fixes d0 :: "'d::linorder"
  shows "fold (\<lambda>s d. min (m s) d) ss d0 \<le> d0 \<and> (\<forall>s\<in>set ss. fold (\<lambda>s d. min (m s) d) ss d0 \<le> m s)"
proof (induction ss arbitrary: d0)
  case Nil
  then show ?case by simp
next
  case (Cons a ss)
  from Cons.IH[of "min (m a) d0"] show ?case by (auto simp: min_le_iff_disj)
qed

lemma fold_min_attained:
  fixes d0 :: "'d::linorder"
  shows "fold (\<lambda>s d. min (m s) d) ss d0 = d0 \<or> (\<exists>s\<in>set ss. fold (\<lambda>s d. min (m s) d) ss d0 = m s)"
proof (induction ss arbitrary: d0)
  case Nil
  then show ?case by simp
next
  case (Cons a ss)
  from Cons.IH[of "min (m a) d0"] show ?case by (auto simp: min_def split: if_splits)
qed

lemma nearest_lower:
  "\<lbrakk>nearest metric l ts = Inr b; s \<in> set ts\<rbrakk> \<Longrightarrow> b \<le> metric l s"
  using fold_min_lower[of "metric l"] by (cases ts) auto

lemma nearest_attained:
  "nearest metric l ss = Inr a \<Longrightarrow> \<exists>s\<in>set ss. a = metric l s"
  using fold_min_attained[of "metric l"] by (cases ss) auto

lemma nearest_antitone:
  assumes "set ss \<subseteq> set ts" "nearest metric l ss = Inr a"
  shows "\<exists>b. nearest metric l ts = Inr b \<and> b \<le> a"
proof -
  from nearest_attained[OF assms(2)] obtain s where s: "s \<in> set ss" "a = metric l s" by blast
  with assms(1) have st: "s \<in> set ts" by blast
  then obtain b where b: "nearest metric l ts = Inr b" by (cases ts) auto
  from nearest_lower[OF b st] s(2) b show ?thesis by simp
qed

lemma nearest_cong:
  "(\<And>s. metric l s = metric l' s) \<Longrightarrow> nearest metric l ss = nearest metric l' ss"
  by (cases ss) simp_all

lemma distance_to_nearest_stop_Inr:
  "distance_to_nearest_stop metric df stops = Inr d \<longleftrightarrow>
     rows stops \<noteq> [] \<and> length d = length (rows df)
     \<and> (\<forall>i<length (rows df). nearest metric (rows df ! i) (rows stops) = Inr (d ! i))"
  by (auto simp: distance_to_nearest_stop_def emap_Inr_iff list_all2_conv_all_nth)

lemma subway_stations_rows:
  assumes "subway_stations ztm = Inr stations"
  shows "rows stations = filter (\<lambda>r. subway_mask (r ''stop_name'')) (rows ztm)"
proof -
  from assms have "stations = select_rows ztm
      (map subway_mask (map (\<lambda>r. r ''stop_name'') (rows ztm)))"
    unfolding subway_stations_def ebind_Inr_iff get_attr_Inr by auto
  then show ?thesis by (simp only: select_rows_column)
qed

text \<open>
  Claim C2. \<^verbatim>\<open>subway_stations\<close> is the part of \<^verbatim>\<open>ztm_stops\<close> whose \<^verbatim>\<open>stop_name\<close> passes the
  name test, and \<^verbatim>\<open>distance_to_nearest_stop\<close> is the least distance to a stop of the table
  it is given; so for every listing \<^verbatim>\<open>distance_to_subway\<close> is at least
  \<^verbatim>\<open>distance_to_stop\<close>. The distance between a listing and a stop is taken not to
  depend on the \<^verbatim>\<open>distance_to_stop\<close> column, which the listing table gains between the
  two calls.
\<close>

theorem subway_not_nearer:
  assumes "stop_distances metric to_cell df ztm = Inr out"
    and "\<And>l s v. metric (l(''distance_to_stop'' := v)) s = metric l s"
  shows "\<exists>stations d_stop d_subway.
      subway_stations ztm = Inr stations
      \<and> rows stations = filter (\<lambda>r. subway_mask (r ''stop_name'')) (rows ztm)
      \<and> distance_to_nearest_stop metric df ztm = Inr d_stop
      \<and> distance_to_nearest_stop metric df stations = Inr d_subway
      \<and> length (rows out) = length (rows df)
      \<and> (\<forall>i<length (rows df).
           (rows out ! i) ''distance_to_stop'' = to_cell (d_stop ! i)
           \<and> (rows out ! i) ''distance_to_subway'' = to_cell (d_subway ! i)
           \<and> d_stop ! i \<le> d_subway ! i)"
proof -
  from assms(1) obtain d1 df1 stations d2 where
    d1: "distance_to_nearest_stop metric df ztm = Inr d1"
    and df1: "set_column df ''distance_to_stop'' (map to_cell d1) = Inr df1"
    and st: "subway_stations ztm = Inr stations"
    and d2: "distance_to_nearest_stop metric df1 stations = Inr d2"
    and out: "set_column df1 ''distance_to_subway'' (map to_cell d2) = Inr out"
    unfolding stop_distances_def ebind_Inr_iff by blast
  note s1 = set_column_rows[OF df1]
  note s2 = set_column_rows[OF out]
  note sub = subway_stations_rows[OF st]
  from d1 have l1: "rows ztm \<noteq> []" "length d1 = length (rows df)"
    and n1: "\<forall>i<length (rows df). nearest metric (rows df ! i) (rows ztm) = Inr (d1 ! i)"
    by (simp_all add: distance_to_nearest_stop_Inr)
  from d2 s1(1) have l2: "rows stations \<noteq> []" "length d2 = length (rows df)"
    and n2: "\<forall>i<length (rows df). nearest metric (rows df1 ! i) (rows stations) = Inr (d2 ! i)"
    by (simp_all add: distance_to_nearest_stop_Inr)
  have n2': "\<forall>i<length (rows df). nearest metric (rows df ! i) (rows stations) = Inr (d2 ! i)"
  proof (intro allI impI)
    fix i assume i: "i < length (rows df)"
    from s1(2)[OF i] have "rows df1 ! i = (rows df ! i)(''distance_to_stop'' := map to_cell d1 ! i)" .
    then have "nearest metric (rows df1 ! i) (rows stations) =
        nearest metric (rows df ! i) (rows stations)"
      using nearest_cong[of metric "rows df1 ! i" "rows df ! i" "rows stations"] assms(2) by simp
    with n2 i show "nearest metric (rows df ! i) (rows stations) = Inr (d2 ! i)" by simp
  qed
  with l2 have d2': "distance_to_nearest_stop metric df stations = Inr d2"
    by (simp add: distance_to_nearest_stop_Inr)
  have rows_ok: "\<forall>i<length (rows df).
           (rows out ! i) ''distance_to_stop'' = to_cell (d1 ! i)
           \<and> (rows out ! i) ''distance_to_subway'' = to_cell (d2 ! i)
           \<and> d1 ! i \<le> d2 ! i"
  proof (intro allI impI)
    fix i assume i: "i < length (rows df)"
    then have i1: "i < length (rows df1)" using s1(1) by simp
    from s1(2)[OF i] s2(2)[OF i1] i l1(2) l2(2)
    have cells: "(rows out ! i) ''distance_to_stop'' = to_cell (d1 ! i)"
      "(rows out ! i) ''distance_to_subway'' = to_cell (d2 ! i)" by simp_all
    have "set (rows stations) \<subseteq> set (rows ztm)" unfolding sub by auto
    from nearest_antitone[OF this n2'[rule_format, OF i]] n1 i have "d1 ! i \<le> d2 ! i" by auto
    with cells show "(rows out ! i) ''distance_to_stop'' = to_cell (d1 ! i)
           \<and> (rows out ! i) ''distance_to_subway'' = to_cell (d2 ! i)
           \<and> d1 ! i \<le> d2 ! i" by simp
  qed
  from s1(1) s2(1) have "length (rows out) = length (rows df)" by simp
  with st sub d1 d2' rows_ok show ?thesis by blast
qed

section \<open>The order of the preparation notebook\<close>

lemma run_Cons_next:
  "f s = Inr s' \<Longrightarrow> fst (run ((tag, f) # cells) s) = tag # fst (run cells s')"
  "f s = Inr s' \<Longrightarrow> snd (run ((tag, f) # cells) s) = snd (run cells s')"
  by (cases "run cells s'"; simp)+

lemma run_Cons_stop: "f s = Inl e \<Longrightarrow> run ((tag, f) # cells) s = ([tag], Inl e)"
  by simp

lemma run_started: "\<exists>n. fst (run cells s) = take n (map fst cells)"
proof (induction cells arbitrary: s)
  case Nil
  then show ?case by simp
next
  case (Cons cell cells)
  obtain tag f where cell: "cell = (tag, f)" by (cases cell)
  show ?case
  proof (cases "f s")
    case (Inl e)
    with cell have "fst (run (cell # cells) s) = take 1 (map fst (cell # cells))"
      by (simp add: run_Cons_stop del: run.simps)
    then show ?thesis by blast
  next
    case (Inr s')
    from Cons.IH[of s'] obtain n where n: "fst (run cells s') = take n (map fst cells)" by blast
    with cell Inr have "fst (run (cell # cells) s) = take (Suc n) (map fst (cell # cells))"
      by (simp add: run_Cons_next del: run.simps)
    then show ?thesis by blast
  qed
qed

lemma run_Cons_Inr:
  "snd (run ((tag, f) # cells) s) = Inr out \<longleftrightarrow>
     (\<exists>s'. f s = Inr s' \<and> snd (run cells s') = Inr out)"
  by (cases "f s") (simp_all add: run_Cons_next run_Cons_stop del: run.simps)

lemma run_finished: "snd (run cells s) = Inr out \<Longrightarrow> fst (run cells s) = map fst cells"
proof (induction cells arbitrary: s)
  case Nil
  then show ?case by simp
next
  case (Cons cell cells)
  obtain tag f where cell: "cell = (tag, f)" by (cases cell)
  from Cons.prems cell have "snd (run ((tag, f) # cells) s) = Inr out" by simp
  then obtain s' where s': "f s = Inr s'" "snd (run cells s') = Inr out"
    unfolding run_Cons_Inr by blast
  from Cons.IH[OF s'(2)] cell s'(1) show ?case by (simp add: run_Cons_next del: run.simps)
qed

lemma notebook_tags: "map fst (notebook env inp) = section_order"
  by (simp add: notebook_def section_order_def)

lemma section_order_enrichment:
  assumes "i < length (take n section_order)" "take n section_order ! i \<in> enrichment"
  shows "0 < i \<and> take n section_order ! 0 = Deduplicate"
proof -
  from assms(1) have i: "i < n" "i < 8" by (simp_all add: section_order_def)
  with assms(2) have e: "section_order ! i \<in> enrichment" by simp
  have "section_order ! 0 \<notin> enrichment" by (simp add: section_order_def enrichment_def)
  with e have "i \<noteq> 0" by metis
  with i show ?thesis by (simp add: section_order_def)
qed

text \<open>
  Claim C6. The sections of the preparation notebook run in this order: deduplication,
  transformation, then the enrichment sections (location corrections, hidden fees,
  distance columns, historical average price, apartment classes), then the saving of the
  modeling table. A run starts an initial part of this list; deduplication is started
  before every enrichment section; and the saved table is the result of applying the
  sections, in this order, to the scraped main table.
\<close>

theorem preparation_order:
  "(\<exists>n. fst (preparation env inp) = take n section_order)
   \<and> (\<forall>i<length (fst (preparation env inp)).
        fst (preparation env inp) ! i \<in> enrichment \<longrightarrow>
        (\<exists>j<i. fst (preparation env inp) ! j = Deduplicate))
   \<and> (snd (preparation env inp) = Inr saved \<longrightarrow>
        fst (preparation env inp) = section_order
        \<and> (\<exists>deduplicated transformed relocated with_fees with_distances with_average with_classes.
             deduplicate_main env (main_csv inp) = Inr deduplicated
             \<and> transform_data env deduplicated True 1 28 True = Inr transformed
             \<and> locations_section env inp transformed = Inr relocated
             \<and> fees_section inp relocated = Inr with_fees
             \<and> distances_section env inp with_fees = Inr with_distances
             \<and> average_section env inp with_distances = Inr with_average
             \<and> classes_section env inp with_average = Inr with_classes
             \<and> modeling_data with_classes = Inr saved))"
proof -
  from run_started[of "notebook env inp" "main_csv inp"] obtain n where
    n: "fst (preparation env inp) = take n section_order"
    unfolding preparation_def notebook_tags by blast
  have before: "\<forall>i<length (fst (preparation env inp)).
        fst (preparation env inp) ! i \<in> enrichment \<longrightarrow>
        (\<exists>j<i. fst (preparation env inp) ! j = Deduplicate)"
    unfolding n using section_order_enrichment by blast
  have finished: "snd (preparation env inp) = Inr saved \<longrightarrow>
        fst (preparation env inp) = section_order
        \<and> (\<exists>deduplicated transformed relocated with_fees with_distances with_average with_classes.
             deduplicate_main env (main_csv inp) = Inr deduplicated
             \<and> transform_data env deduplicated True 1 28 True = Inr transformed
             \<and> locations_section env inp transformed = Inr relocated
             \<and> fees_section inp relocated = Inr with_fees
             \<and> distances_section env inp with_fees = Inr with_distances
             \<and> average_section env inp with_distances = Inr with_average
             \<and> classes_section env inp with_average = Inr with_classes
             \<and> modeling_data with_classes = Inr saved)"
  proof
    assume s: "snd (preparation env inp) = Inr saved"
    from run_finished[OF s[unfolded preparation_def]]
    have "fst (preparation env inp) = section_order"
      unfolding preparation_def notebook_tags .
    moreover from s have "\<exists>deduplicated transformed relocated with_fees with_distances with_average
          with_classes.
             deduplicate_main env (main_csv inp) = Inr deduplicated
             \<and> transform_data env deduplicated True 1 28 True = Inr transformed
             \<and> locations_section env inp transformed = Inr relocated
             \<and> fees_section inp relocated = Inr with_fees
             \<and> distances_section env inp with_fees = Inr with_distances
             \<and> average_section env inp with_distances = Inr with_average
             \<and> classes_section env inp with_average = Inr with_classes
             \<and> modeling_data with_classes = Inr saved"
      unfolding preparation_def notebook_def run_Cons_Inr by simp
    ultimately show "fst (preparation env inp) = section_order
        \<and> (\<exists>deduplicated transformed relocated with_fees with_distances with_average with_classes.
             deduplicate_main env (main_csv inp) = Inr deduplicated
             \<and> transform_data env deduplicated True 1 28 True = Inr transformed
             \<and> locations_section env inp transformed = Inr relocated
             \<and> fees_section inp relocated = Inr with_fees
             \<and> distances_section env inp with_fees = Inr with_distances
             \<and> average_section env inp with_distances = Inr with_average
             \<and> classes_section env inp with_average = Inr with_classes
             \<and> modeling_data with_classes = Inr saved)" by (rule conjI)
  qed
  from n before finished show ?thesis by blast
qed

section \<open>Concrete runs\<close>

theorem price_per_square_total_rent_witness:
  "\<exists>out. price_per_square sample_get_numbers sample_str sample_add sample_truediv sample_legacy
          = Inr out
     \<and> length (rows out) = length (rows sample_legacy)
     \<and> (rows out ! 0) ''rent_price'' = Integer 2500
     \<and> (rows out ! 0) ''price_per_square'' = Integer 50
     \<and> (rows out ! 2) ''rent_price'' = Integer 3000
     \<and> (rows out ! 2) ''price_per_square'' = Integer 50"
proof -
  let ?r = "price_per_square sample_get_numbers sample_str sample_add sample_truediv sample_legacy"
  have ev: "case ?r of
      Inl e \<Rightarrow> False
    | Inr out \<Rightarrow> (rows out ! 0) ''rent_price'' = Integer 2500
        \<and> (rows out ! 0) ''price_per_square'' = Integer 50
        \<and> (rows out ! 2) ''rent_price'' = Integer 3000
        \<and> (rows out ! 2) ''price_per_square'' = Integer 50" by code_simp
  then obtain out where o: "?r = Inr out"
    and a: "(rows out ! 0) ''rent_price'' = Integer 2500"
      "(rows out ! 0) ''price_per_square'' = Integer 50"
      "(rows out ! 2) ''rent_price'' = Integer 3000"
      "(rows out ! 2) ''price_per_square'' = Integer 50"
    by (cases ?r) auto
  from price_per_square_total_rent[OF o] have "length (rows out) = length (rows sample_legacy)"
    by blast
  with o a show ?thesis by blast
qed

theorem average_on_exact_legacy_witness:
  "(\<exists>out legacy_data.
      average_section sample_env sample_inputs sample_main = Inr out
      \<and> legacy_for_average (\<lambda>x c. False) sample_get_numbers sample_str sample_add sample_truediv
          sample_legacy = Inr legacy_data
      \<and> length (rows sample_legacy) = 3
      \<and> length (rows legacy_data) = 2
      \<and> (rows legacy_data ! 0) ''approximate_coordinates'' = Bool False
      \<and> (rows legacy_data ! 1) ''approximate_coordinates'' = NaN)
   \<and> average_section
        (sample_env\<lparr>average_price_within_radius := (\<lambda>df legacy_data radius_km.
           if \<exists>r\<in>set (rows legacy_data). eq_True (\<lambda>x c. False) (r ''approximate_coordinates'')
           then Inl OtherError else Inr (map (\<lambda>r. NaN) (rows df)))\<rparr>)
        sample_inputs sample_main
      = average_section sample_env sample_inputs sample_main"
proof -
  let ?f = "\<lambda>(df :: unit frame) (legacy_data :: unit frame) (radius_km :: int \<times> nat).
           if \<exists>r\<in>set (rows legacy_data). eq_True (\<lambda>x c. False) (r ''approximate_coordinates'')
           then Inl OtherError else Inr (map (\<lambda>r. NaN :: unit cell) (rows df))"
  let ?r = "average_section sample_env sample_inputs sample_main"
  note t = average_on_exact_legacy[of sample_env sample_inputs sample_main _ ?f]
  have ev: "case ?r of Inl e \<Rightarrow> False | Inr out \<Rightarrow> True" by code_simp
  then obtain out where o: "?r = Inr out" by (cases ?r) auto
  have env: "env_obj_eq sample_env = (\<lambda>x c. False)" "get_numbers sample_env = sample_get_numbers"
    "env_str sample_env = sample_str" "env_add sample_env = sample_add"
    "env_truediv sample_env = sample_truediv" "historical sample_inputs = sample_legacy"
    by (simp_all add: sample_env_def sample_inputs_def)
  from t[of out] o obtain legacy_data where
    l: "legacy_for_average (\<lambda>x c. False) sample_get_numbers sample_str sample_add sample_truediv
          sample_legacy = Inr legacy_data"
    and n: "length (rows legacy_data) =
         length (filter (\<lambda>r. \<not> eq_True (\<lambda>x c. False) (r ''approximate_coordinates''))
                   (rows sample_legacy))"
    and fr: "\<forall>i<length (rows legacy_data). \<forall>c.
              c \<notin> {''rent_price'', ''additional_fees'', ''area'', ''price_per_square''} \<longrightarrow>
              (rows legacy_data ! i) c =
                (filter (\<lambda>r. \<not> eq_True (\<lambda>x c. False) (r ''approximate_coordinates''))
                   (rows sample_legacy) ! i) c"
    unfolding env by blast
  have k: "length (filter (\<lambda>r. \<not> eq_True (\<lambda>x c. False) (r ''approximate_coordinates''))
      (rows sample_legacy)) = 2" "length (rows sample_legacy) = 3" by code_simp+
  have k0: "(filter (\<lambda>r. \<not> eq_True (\<lambda>x c. False) (r ''approximate_coordinates''))
      (rows sample_legacy) ! 0) ''approximate_coordinates'' = Bool False" by code_simp
  have k1: "(filter (\<lambda>r. \<not> eq_True (\<lambda>x c. False) (r ''approximate_coordinates''))
      (rows sample_legacy) ! 1) ''approximate_coordinates'' = NaN" by code_simp
  from n k have len: "length (rows legacy_data) = 2" by simp
  have nc: "''approximate_coordinates'' \<notin>
      {''rent_price'', ''additional_fees'', ''area'', ''price_per_square''}" by simp
  from len have i0: "0 < length (rows legacy_data)" and i1: "1 < length (rows legacy_data)" by simp_all
  from fr[rule_format, OF i0 nc] k0
  have a0: "(rows legacy_data ! 0) ''approximate_coordinates'' = Bool False" by simp
  from fr[rule_format, OF i1 nc] k1
  have a1: "(rows legacy_data ! 1) ''approximate_coordinates'' = NaN" by simp
  have "\<forall>legacy_data.
          (\<forall>r\<in>set (rows legacy_data). \<not> eq_True (env_obj_eq sample_env) (r ''approximate_coordinates'')) \<longrightarrow>
          ?f sample_main legacy_data (5, 1) =
          average_price_within_radius sample_env sample_main legacy_data (5, 1)"
    by (simp add: sample_env_def)
  with t have ind: "average_section (sample_env\<lparr>average_price_within_radius := ?f\<rparr>)
      sample_inputs sample_main = ?r" by blast
  from o l k(2) len a0 a1 have "\<exists>out legacy_data.
      ?r = Inr out
      \<and> legacy_for_average (\<lambda>x c. False) sample_get_numbers sample_str sample_add sample_truediv
          sample_legacy = Inr legacy_data
      \<and> length (rows sample_legacy) = 3
      \<and> length (rows legacy_data) = 2
      \<and> (rows legacy_data ! 0) ''approximate_coordinates'' = Bool False
      \<and> (rows legacy_data ! 1) ''approximate_coordinates'' = NaN"
    by (intro exI conjI)
  with ind show ?thesis by (intro conjI)
qed

theorem llm_only_on_qualifying_witness:
  "map (\<lambda>r. r ''link'') (filter (qualifies ascii_dv sample_le sample_lt) (rows sample_main)) =
     [Str (str ''a'')]
   \<and> (\<exists>cand. llm_candidates ascii_dv sample_le sample_lt sample_main = Inr cand
        \<and> get_column cand ''filtered_description'' = Inr [Str (str ''czynsz 650'')])
   \<and> fee_generation ascii_dv sample_le sample_lt (\<lambda>c. Inr (Str (str ''czynsz: 650''))) sample_main =
       fee_generation ascii_dv sample_le sample_lt
         (\<lambda>c. if c = Str (str ''czynsz 650'') then Inr (Str (str ''czynsz: 650''))
              else Inl OtherError) sample_main"
proof -
  let ?q = "\<lambda>c::unit cell. Inr (Str (str ''czynsz: 650'')) :: py_error + unit cell"
  let ?q' = "\<lambda>c::unit cell. if c = Str (str ''czynsz 650'') then Inr (Str (str ''czynsz: 650''))
      else (Inl OtherError :: py_error + unit cell)"
  let ?kept = "filter (qualifies ascii_dv sample_le sample_lt) (rows sample_main)"
  have a: "map (\<lambda>r. r ''link'') ?kept = [Str (str ''a'')]" by code_simp
  have ev: "case llm_candidates ascii_dv sample_le sample_lt sample_main of
      Inl e \<Rightarrow> False | Inr cand \<Rightarrow> True" by code_simp
  then obtain cand where o: "llm_candidates ascii_dv sample_le sample_lt sample_main = Inr cand"
    by (cases "llm_candidates ascii_dv sample_le sample_lt sample_main") auto
  have req: "map (\<lambda>r. Str (filter_lines ascii_dv (text_of (r ''adv_description'')))) ?kept =
      [Str (str ''czynsz 650'') :: unit cell]" by code_simp
  have agree: "list_all (\<lambda>r. ?q (Str (filter_lines ascii_dv (text_of (r ''adv_description'')))) =
      ?q' (Str (filter_lines ascii_dv (text_of (r ''adv_description''))))) ?kept" by code_simp
  note t = llm_only_on_qualifying[of ascii_dv sample_le sample_lt sample_main cand ?q ?q']
  from t o req have b: "get_column cand ''filtered_description'' = Inr [Str (str ''czynsz 650'')]"
    by simp
  from t agree have c: "fee_generation ascii_dv sample_le sample_lt ?q sample_main =
      fee_generation ascii_dv sample_le sample_lt ?q' sample_main"
    unfolding list_all_iff by blast
  from a o b c show ?thesis by blast
qed

theorem subway_not_nearer_witness:
  "(\<exists>out. stop_distances sample_metric (\<lambda>d. Integer (int d)) sample_main sample_stops = Inr out
      \<and> (rows out ! 0) ''distance_to_stop'' = Integer 2
      \<and> (rows out ! 0) ''distance_to_subway'' = Integer 7)
   \<and> (\<exists>d_stop d_subway stations.
        distance_to_nearest_stop sample_metric sample_main sample_stops = Inr d_stop
        \<and> subway_stations sample_stops = Inr stations
        \<and> distance_to_nearest_stop sample_metric sample_main stations = Inr d_subway
        \<and> d_stop ! 0 \<le> d_subway ! 0 \<and> d_stop ! 1 \<le> d_subway ! 1)"
proof -
  let ?r = "stop_distances sample_metric (\<lambda>d. Integer (int d)) sample_main sample_stops"
  have ev: "case ?r of
      Inl e \<Rightarrow> False
    | Inr out \<Rightarrow> (rows out ! 0) ''distance_to_stop'' = Integer 2
        \<and> (rows out ! 0) ''distance_to_subway'' = Integer 7" by code_simp
  then obtain out where o: "?r = Inr out"
    and a: "(rows out ! 0) ''distance_to_stop'' = Integer 2"
      "(rows out ! 0) ''distance_to_subway'' = Integer 7"
    by (cases ?r) auto
  have ign: "\<And>l s v. sample_metric (l(''distance_to_stop'' := v)) s = sample_metric l s"
    by (simp add: sample_metric_def)
  have l: "0 < length (rows sample_main)" "1 < length (rows sample_main)" by code_simp+
  from subway_not_nearer[OF o ign] obtain stations d_stop d_subway where
    "subway_stations sample_stops = Inr stations"
    "distance_to_nearest_stop sample_metric sample_main sample_stops = Inr d_stop"
    "distance_to_nearest_stop sample_metric sample_main stations = Inr d_subway"
    "\<forall>i<length (rows sample_main). (rows out ! i) ''distance_to_stop'' = Integer (int (d_stop ! i))
           \<and> (rows out ! i) ''distance_to_subway'' = Integer (int (d_subway ! i))
           \<and> d_stop ! i \<le> d_subway ! i" by blast
  with l o a show ?thesis by blast
qed

theorem preparation_order_witness:
  "fst (preparation sample_env sample_inputs) = section_order
   \<and> (\<exists>saved. snd (preparation sample_env sample_inputs) = Inr saved
        \<and> ''link'' \<notin> set (columns saved) \<and> ''distance_to_subway'' \<in> set (columns saved))
   \<and> (\<exists>j<2. fst (preparation sample_env sample_inputs) ! j = Deduplicate)
   \<and> fst (preparation sample_env sample_inputs) ! 2 \<in> enrichment"
proof -
  have ev: "case snd (preparation sample_env sample_inputs) of
      Inl e \<Rightarrow> False
    | Inr saved \<Rightarrow> ''link'' \<notin> set (columns saved) \<and> ''distance_to_subway'' \<in> set (columns saved)"
    by code_simp
  then obtain saved where o: "snd (preparation sample_env sample_inputs) = Inr saved"
    and a: "''link'' \<notin> set (columns saved)" "''distance_to_subway'' \<in> set (columns saved)"
    by (cases "snd (preparation sample_env sample_inputs)") auto
  note t = preparation_order[of sample_env sample_inputs saved]
  from t o have f: "fst (preparation sample_env sample_inputs) = section_order" by blast
  have e: "section_order ! 2 \<in> enrichment" "2 < length section_order"
    by (simp_all add: section_order_def enrichment_def)
  with f have e': "fst (preparation sample_env sample_inputs) ! 2 \<in> enrichment"
    "2 < length (fst (preparation sample_env sample_inputs))" by simp_all
  with t have "\<exists>j<2. fst (preparation sample_env sample_inputs) ! j = Deduplicate" by blast
  with f o a e' show ?thesis by blast
qed

end
